theory Spec2Isabelle
  imports Complex_Main "HOL-Library.Sublist"
begin

section \<open>JavaScript helpers used by the gates\<close>

text \<open>
  \<open>Number.prototype.toString()\<close> on a non-negative integer: its decimal digits,
  most significant first, no leading zero.
\<close>

definition digit_char :: "nat \<Rightarrow> char" where
  "digit_char d = ''0123456789'' ! d"

fun toString :: "nat \<Rightarrow> string" where
  "toString n = (if n < 10 then [digit_char n] else toString (n div 10) @ [digit_char (n mod 10)])"

declare toString.simps [simp del]

text \<open>\<open>String.prototype.padStart(targetLength, padChar)\<close> with a one-character pad.\<close>

definition padStart :: "string \<Rightarrow> nat \<Rightarrow> char \<Rightarrow> string" where
  "padStart s n c = replicate (n - length s) c @ s"

text \<open>\<open>String.prototype.includes(t)\<close>: \<open>t\<close> occurs in \<open>s\<close> as a contiguous substring.\<close>

fun includes_str :: "string \<Rightarrow> string \<Rightarrow> bool" where
  "includes_str [] t = (t = [])"
| "includes_str (c # cs) t = (prefix t (c # cs) \<or> includes_str cs t)"

section \<open>JavaScript numbers\<close>

text \<open>
  JavaScript numbers are IEEE 754 doubles: every arithmetic operation returns the double
  nearest to the exact result, ties going to the even significand. \<open>rne\<close> rounds a real
  number to the nearest integer in that way, and \<open>round_double\<close> rounds a real number
  to 53 significant bits. The exponent is not bounded: overflow and subnormal numbers
  are not modelled.
\<close>

definition rne :: "real \<Rightarrow> int" where
  "rne r = (let f = \<lfloor>r\<rfloor>; d = r - of_int f
            in if d < 1/2 then f else if 1/2 < d then f + 1 else if even f then f else f + 1)"

definition round_double :: "real \<Rightarrow> real" where
  "round_double x =
     (if x = 0 then 0
      else (let e = \<lfloor>log 2 \<bar>x\<bar>\<rfloor>
            in of_int (rne (x / 2 powr real_of_int (e - 52))) * 2 powr real_of_int (e - 52)))"

section \<open>SaturnObject: the wall-clock timing secret\<close>

text \<open>
  The fields of \<open>SaturnObject\<close> that \<open>checkTimingSecret\<close> reads and writes, with the
  values the constructor gives them. \<open>Date.getSeconds()\<close> is an integer in \<open>0..59\<close>;
  the counter is only ever set to \<open>0\<close> or incremented.
\<close>

record saturn_object =
  saturnCounter :: nat
  lastSixMoment :: nat
  saturnSecretUnlocked :: bool
  triangleRevealed :: bool

definition saturn_constructor :: saturn_object where
  "saturn_constructor =
     \<lparr> saturnCounter = 0, lastSixMoment = 0, saturnSecretUnlocked = False, triangleRevealed = False \<rparr>"

definition containsSix :: "nat \<Rightarrow> bool" where
  "containsSix seconds = includes_str (padStart (toString seconds) 2 CHR ''0'') ''6''"

text \<open>
  \<open>checkTimingSecret(currentTime)\<close>, given \<open>currentTime.getSeconds()\<close>. The result is
  the returned boolean and the object after the call.
\<close>

definition checkTimingSecret :: "nat \<Rightarrow> saturn_object \<Rightarrow> bool \<times> saturn_object" where
  "checkTimingSecret seconds this =
     (if \<not> containsSix seconds then
        (False, this\<lparr> saturnCounter := 0, lastSixMoment := seconds \<rparr>)
      else if lastSixMoment this = seconds then
        (False, this)
      else
        (let this' = this\<lparr> lastSixMoment := seconds, saturnCounter := saturnCounter this + 1 \<rparr>
         in if saturnCounter this' \<ge> 3
            then (True, this'\<lparr> saturnSecretUnlocked := True \<rparr>)
            else (False, this')))"

text \<open>A sequence of attempts, one per element, each at the given seconds value.\<close>

fun attempts :: "nat list \<Rightarrow> saturn_object \<Rightarrow> saturn_object" where
  "attempts [] this = this"
| "attempts (sec # secs) this = attempts secs (snd (checkTimingSecret sec this))"

section \<open>FlowerOfLife: the 13-click sequence\<close>

datatype js_error = TypeError

text \<open>
  What \<open>raycaster.intersectObjects(this.flowerGroup.children, true)\<close> gives
  \<open>handleClick\<close>: no intersection, a first intersection with a circle tube (its
  \<open>userData\<close> has an id but no \<open>isNode\<close>, and neither its parent group nor the scene
  has one, so no node is found), or a first intersection with the clickable node \<open>id\<close>.
\<close>

datatype hit = NoHit | HitCircle nat | HitNode nat

text \<open>
  The object's fields: \<open>flowerGroup\<close> and \<open>metatronCube\<close> are \<open>null\<close> (\<open>None\<close>) or a
  group with its \<open>visible\<close> flag; \<open>nodeMap\<close> keeps, for each circle id in insertion
  order, the colour of the circle's material; \<open>revealTimers\<close> counts the pending
  500 ms callbacks that \<open>handleClick\<close> schedules on completion.
\<close>

record flower_of_life =
  flowerGroup :: "bool option"
  metatronCube :: "bool option"
  metatronClicks :: "nat list"
  showMetatron :: bool
  nodeMap :: "(nat \<times> nat) list"
  revealTimers :: nat

definition FRUIT_OF_LIFE_ORDER :: "nat list" where
  "FRUIT_OF_LIFE_ORDER = [0, 1, 3, 5, 2, 4, 6, 7, 9, 11, 8, 10, 12]"

definition white :: nat where "white = 0xffffff"
definition dimmed :: nat where "dimmed = 0x666666"

definition flower_constructor :: flower_of_life where
  "flower_constructor =
     \<lparr> flowerGroup = None, metatronCube = None, metatronClicks = [], showMetatron = False,
       nodeMap = [], revealTimers = 0 \<rparr>"

text \<open>\<open>create()\<close>: thirteen white circles with ids \<open>0..12\<close>, in an invisible group.\<close>

definition create :: "flower_of_life \<Rightarrow> flower_of_life" where
  "create this = this\<lparr> nodeMap := map (\<lambda>i. (i, white)) [0..<13], flowerGroup := Some False \<rparr>"

text \<open>Reading an array element: \<open>undefined\<close> (\<open>None\<close>) past the end.\<close>

definition array_get :: "'a list \<Rightarrow> nat \<Rightarrow> 'a option" where
  "array_get xs i = (if i < length xs then Some (xs ! i) else None)"

definition setColor :: "nat \<Rightarrow> nat \<Rightarrow> (nat \<times> nat) list \<Rightarrow> (nat \<times> nat) list" where
  "setColor ident c m = map (\<lambda>(i, old). if i = ident then (i, c) else (i, old)) m"

definition reset :: "flower_of_life \<Rightarrow> flower_of_life" where
  "reset this =
     this\<lparr> metatronClicks := [], showMetatron := False,
           nodeMap := map (\<lambda>(i, old). (i, white)) (nodeMap this) \<rparr>"

text \<open>
  \<open>handleClick(raycaster, isMobile)\<close>. Reading \<open>this.flowerGroup.children\<close> of an
  object that was never created throws; the returned boolean is \<open>true\<close> for a correct
  click and \<open>false\<close> otherwise.
\<close>

definition handleClick :: "hit \<Rightarrow> flower_of_life \<Rightarrow> js_error + bool \<times> flower_of_life" where
  "handleClick h this =
     (if showMetatron this then Inr (False, this)
      else case flowerGroup this of
        None \<Rightarrow> Inl TypeError
      | Some visible \<Rightarrow>
         (case h of
            NoHit \<Rightarrow> Inr (False, this)
          | HitCircle ident \<Rightarrow> Inr (False, this)
          | HitNode clickedId \<Rightarrow>
             (let expectedId = array_get FRUIT_OF_LIFE_ORDER (length (metatronClicks this)) in
              if Some clickedId = expectedId then
                (let this1 = this\<lparr> metatronClicks := metatronClicks this @ [clickedId],
                                    nodeMap := setColor clickedId dimmed (nodeMap this) \<rparr>
                 in if length (metatronClicks this1) = 13 then
                      Inr (True, this1\<lparr> showMetatron := True,
                                        metatronCube := (case metatronCube this1 of
                                                           None \<Rightarrow> Some False
                                                         | Some v \<Rightarrow> Some v),
                                        revealTimers := revealTimers this1 + 1 \<rparr>)
                    else Inr (True, this1))
              else Inr (False, reset this))))"

text \<open>The callback of the 500 ms timer set on completion.\<close>

definition revealTimeout :: "flower_of_life \<Rightarrow> js_error + flower_of_life" where
  "revealTimeout this =
     (case (metatronCube this, flowerGroup this) of
        (Some m, Some g) \<Rightarrow>
          Inr (this\<lparr> metatronCube := Some True, flowerGroup := Some False,
                     revealTimers := revealTimers this - 1 \<rparr>)
      | _ \<Rightarrow> Inl TypeError)"

definition "show" :: "flower_of_life \<Rightarrow> flower_of_life" where
  "show this =
     (case flowerGroup this of
        Some visible \<Rightarrow> reset (this\<lparr> flowerGroup := Some True \<rparr>)
      | None \<Rightarrow> this)"

definition hide :: "flower_of_life \<Rightarrow> flower_of_life" where
  "hide this =
     this\<lparr> flowerGroup := map_option (\<lambda>v. False) (flowerGroup this),
           metatronCube := map_option (\<lambda>v. False) (metatronCube this),
           showMetatron := False \<rparr>"

text \<open>
  The reactive visibility block of the scene component for the flower: it runs with the
  store's \<open>showFlower\<close> and calls \<open>show()\<close> or \<open>hide()\<close> when the group's visibility
  disagrees with it.
\<close>

definition syncFlowerVisibility :: "bool \<Rightarrow> flower_of_life \<Rightarrow> js_error + flower_of_life" where
  "syncFlowerVisibility showFlower this =
     (case flowerGroup this of
        None \<Rightarrow> Inl TypeError
      | Some visible \<Rightarrow>
          if showFlower \<and> \<not> visible then Inr (show this)
          else if \<not> showFlower \<and> visible then Inr (hide this)
          else Inr this)"

text \<open>
  A sequence of clicks: the result of every call, in order, stopping at a call that
  throws.
\<close>

fun handleClicks :: "hit list \<Rightarrow> flower_of_life \<Rightarrow> (js_error + bool \<times> flower_of_life) list" where
  "handleClicks [] this = []"
| "handleClicks (h # hs) this =
     (case handleClick h this of
        Inl e \<Rightarrow> [Inl e]
      | Inr (r, this') \<Rightarrow> Inr (r, this') # handleClicks hs this')"


text \<open>
  The object after a sequence of clicks; a call that throws leaves it as it was and ends
  the sequence.
\<close>

fun afterClicks :: "hit list \<Rightarrow> flower_of_life \<Rightarrow> flower_of_life" where
  "afterClicks [] this = this"
| "afterClicks (h # hs) this =
     (case handleClick h this of
        Inl e \<Rightarrow> this
      | Inr (r, this') \<Rightarrow> afterClicks hs this')"

section \<open>TriangleObject: the breath-cycle click\<close>

text \<open>
  Times are integer counts of milliseconds, as \<open>Date.now()\<close> gives them. Their
  difference and the two divisions round to a double. The remainder \<open>x % y\<close> of two
  doubles is a double, so it does not round; it has the sign of the dividend (the
  quotient is truncated toward zero). The literals \<open>1.3\<close> and \<open>1.7\<close> are the doubles
  nearest to these decimals.
\<close>

definition js_trunc :: "real \<Rightarrow> int" where
  "js_trunc r = (if 0 \<le> r then \<lfloor>r\<rfloor> else \<lceil>r\<rceil>)"

definition js_rem :: "real \<Rightarrow> real \<Rightarrow> real" where
  "js_rem x y = x - y * of_int (js_trunc (x / y))"

datatype breath_phase = Inhale | Exhale

text \<open>
  The breath fields of the object. \<open>glowTimeout\<close> is \<open>null\<close> or the pending timer,
  kept here by the time at which it is due.
\<close>

record triangle_object =
  breathStartTime :: int
  breathPhase :: breath_phase
  breathCounter :: nat
  lastBreathUpdate :: int
  triangleGlowActive :: bool
  glowTimeout :: "int option"
  lastClickCycle :: int

definition triangle_constructor :: triangle_object where
  "triangle_constructor =
     \<lparr> breathStartTime = 0, breathPhase = Inhale, breathCounter = 0, lastBreathUpdate = 0,
       triangleGlowActive = False, glowTimeout = None, lastClickCycle = -1 \<rparr>"

definition elapsed :: "int \<Rightarrow> triangle_object \<Rightarrow> real" where
  "elapsed now this =
     round_double (round_double (real_of_int now - real_of_int (breathStartTime this)) / 1000)"

definition cycleDuration :: real where
  "cycleDuration = 6"

definition phaseTime :: "int \<Rightarrow> triangle_object \<Rightarrow> real" where
  "phaseTime now this = js_rem (elapsed now this) cycleDuration"

definition currentCycle :: "int \<Rightarrow> triangle_object \<Rightarrow> int" where
  "currentCycle now this = \<lfloor>round_double (elapsed now this / cycleDuration)\<rfloor>"

definition isPeakMoment :: "int \<Rightarrow> triangle_object \<Rightarrow> bool" where
  "isPeakMoment now this =
     (phaseTime now this \<ge> round_double 1.3 \<and> phaseTime now this \<le> round_double 1.7)"

text \<open>
  \<open>checkBreathClick()\<close>, given the value \<open>now\<close> that its \<open>Date.now()\<close> reads. The
  result is the returned boolean and the object after the call.
\<close>

definition checkBreathClick :: "int \<Rightarrow> triangle_object \<Rightarrow> bool \<times> triangle_object" where
  "checkBreathClick now this =
     (if isPeakMoment now this then
        (if currentCycle now this = lastClickCycle this then (False, this)
         else
           (let this1 = this\<lparr> lastClickCycle := currentCycle now this,
                               breathCounter := breathCounter this + 1,
                               triangleGlowActive := True,
                               glowTimeout := Some (now + 500) \<rparr>
            in if breathCounter this1 \<ge> 3
               then (True, this1\<lparr> breathCounter := 0, lastClickCycle := -1 \<rparr>)
               else (False, this1)))
      else
        (let this1 = this\<lparr> breathCounter := 0, lastClickCycle := -1 \<rparr>
         in (False, if triangleGlowActive this1
                    then this1\<lparr> triangleGlowActive := False, glowTimeout := None \<rparr>
                    else this1)))"

text \<open>The callback of the 500 ms glow timer.\<close>

definition glowTimeoutFires :: "triangle_object \<Rightarrow> triangle_object" where
  "glowTimeoutFires this = this\<lparr> triangleGlowActive := False, glowTimeout := None \<rparr>"

text \<open>A sequence of clicks at the given times: the result of every call, in order.\<close>

fun breathClicks :: "int list \<Rightarrow> triangle_object \<Rightarrow> (bool \<times> triangle_object) list" where
  "breathClicks [] this = []"
| "breathClicks (now # nows) this =
     (let r = checkBreathClick now this in r # breathClicks nows (snd r))"

section \<open>The scene store and its reducer\<close>

text \<open>
  JavaScript values that reach the store through an action's payload. The reducer
  stores a payload as it is, so the fields it writes hold such values.
\<close>

datatype jsval =
    JUndefined
  | JNull
  | JBool bool
  | JNum real
  | JStr string
  | JObj "(string \<times> jsval) list"

text \<open>Reading property \<open>k\<close> of a value: a \<open>TypeError\<close> on \<open>undefined\<close> and \<open>null\<close>.\<close>

fun js_get :: "jsval \<Rightarrow> string \<Rightarrow> js_error + jsval" where
  "js_get JUndefined k = Inl TypeError"
| "js_get JNull k = Inl TypeError"
| "js_get (JObj kvs) k = Inr (case map_of kvs k of None \<Rightarrow> JUndefined | Some v \<Rightarrow> v)"
| "js_get v k = Inr JUndefined"

text \<open>The operator \<open>!\<close>: true on the falsy values.\<close>

fun js_not :: "jsval \<Rightarrow> bool" where
  "js_not JUndefined = True"
| "js_not JNull = True"
| "js_not (JBool b) = (\<not> b)"
| "js_not (JNum r) = (r = 0)"
| "js_not (JStr s) = (s = [])"
| "js_not (JObj kvs) = False"

text \<open>
  The \<open>type\<close> of an action: one of the strings of \<open>ACTION_TYPES\<close>, \<open>undefined\<close>, or
  any other value. \<open>ACTION_TYPES\<close> has no key \<open>SET_PERFORMANCE_MODE\<close>, so the case
  label \<open>ACTION_TYPES.SET_PERFORMANCE_MODE\<close> is \<open>undefined\<close>.
\<close>

datatype action_type =
    SHOW_CUBE | SHOW_SATURN | SHOW_TRIANGLE | SHOW_FLOWER
  | TOGGLE_AUTO_ROTATE | SET_AUTO_ROTATE
  | UNLOCK_CUBE_SECRET | UNLOCK_SATURN_SECRET | UNLOCK_TRINITY_SECRET
  | UPDATE_MOUSE_POSITION | UPDATE_ROTATION
  | SET_LOADING | SET_ERROR | SET_STATUS | RESET_STATE
  | UndefinedType
  | OtherType string

record action =
  atype :: action_type
  payload :: jsval

record scene_state =
  showCube :: bool
  showSaturn :: bool
  showTriangle :: bool
  showFlower :: bool
  autoRotate :: jsval
  cubeSecretUnlocked :: bool
  saturnSecretUnlocked' :: bool
  trinitySecretUnlocked :: bool
  mouseX :: jsval
  mouseY :: jsval
  saturnRotationX :: jsval
  saturnRotationY :: jsval
  isLoading :: jsval
  error :: jsval
  status :: jsval
  lastAction :: "action_type option"
  timestamp :: int
  performanceMode :: "jsval option"

text \<open>\<open>initialState\<close>; its \<open>timestamp\<close> is the \<open>Date.now()\<close> of module load.\<close>

definition initialState :: "int \<Rightarrow> scene_state" where
  "initialState loaded =
     \<lparr> showCube = True, showSaturn = False, showTriangle = False, showFlower = False,
       autoRotate = JBool True,
       cubeSecretUnlocked = False, saturnSecretUnlocked' = False, trinitySecretUnlocked = False,
       mouseX = JNum 0, mouseY = JNum 0, saturnRotationX = JNum 0, saturnRotationY = JNum 0,
       isLoading = JBool True, error = JNull, status = JStr ''init'',
       lastAction = None, timestamp = loaded, performanceMode = None \<rparr>"

text \<open>
  \<open>reducer(state, action)\<close>; \<open>now\<close> is the value its \<open>Date.now()\<close> reads and
  \<open>loaded\<close> the timestamp of \<open>initialState\<close>.
\<close>

definition stamp :: "int \<Rightarrow> action \<Rightarrow> scene_state \<Rightarrow> scene_state" where
  "stamp now a s = s\<lparr> lastAction := Some (atype a), timestamp := now \<rparr>"

fun reducer_case :: "int \<Rightarrow> int \<Rightarrow> scene_state \<Rightarrow> action \<Rightarrow> action_type \<Rightarrow> js_error + scene_state" where
  "reducer_case loaded now state a SHOW_CUBE =
     Inr (stamp now a (state\<lparr> showCube := True, showSaturn := False, showTriangle := False, showFlower := False \<rparr>))"
| "reducer_case loaded now state a SHOW_SATURN =
     Inr (stamp now a (state\<lparr> showCube := False, showSaturn := True, showTriangle := False, showFlower := False \<rparr>))"
| "reducer_case loaded now state a SHOW_TRIANGLE =
     Inr (stamp now a (state\<lparr> showCube := False, showSaturn := False, showTriangle := True, showFlower := False \<rparr>))"
| "reducer_case loaded now state a SHOW_FLOWER =
     Inr (stamp now a (state\<lparr> showCube := False, showSaturn := False, showTriangle := False, showFlower := True \<rparr>))"
| "reducer_case loaded now state a TOGGLE_AUTO_ROTATE =
     Inr (stamp now a (state\<lparr> autoRotate := JBool (js_not (autoRotate state)) \<rparr>))"
| "reducer_case loaded now state a SET_AUTO_ROTATE =
     Inr (stamp now a (state\<lparr> autoRotate := payload a \<rparr>))"
| "reducer_case loaded now state a UNLOCK_CUBE_SECRET =
     Inr (stamp now a (state\<lparr> cubeSecretUnlocked := True \<rparr>))"
| "reducer_case loaded now state a UNLOCK_SATURN_SECRET =
     Inr (stamp now a (state\<lparr> saturnSecretUnlocked' := True \<rparr>))"
| "reducer_case loaded now state a UNLOCK_TRINITY_SECRET =
     Inr (stamp now a (state\<lparr> trinitySecretUnlocked := True \<rparr>))"
| "reducer_case loaded now state a UPDATE_MOUSE_POSITION =
     (case js_get (payload a) ''x'' of
        Inl e \<Rightarrow> Inl e
      | Inr px \<Rightarrow>
         (case js_get (payload a) ''y'' of
            Inl e \<Rightarrow> Inl e
          | Inr py \<Rightarrow> Inr (stamp now a (state\<lparr> mouseX := px, mouseY := py \<rparr>))))"
| "reducer_case loaded now state a UPDATE_ROTATION =
     (case js_get (payload a) ''x'' of
        Inl e \<Rightarrow> Inl e
      | Inr px \<Rightarrow>
         (case js_get (payload a) ''y'' of
            Inl e \<Rightarrow> Inl e
          | Inr py \<Rightarrow> Inr (stamp now a (state\<lparr> saturnRotationX := px, saturnRotationY := py \<rparr>))))"
| "reducer_case loaded now state a SET_LOADING =
     Inr (stamp now a (state\<lparr> isLoading := payload a \<rparr>))"
| "reducer_case loaded now state a SET_ERROR =
     Inr (stamp now a (state\<lparr> error := payload a, isLoading := JBool False, status := JStr ''error'' \<rparr>))"
| "reducer_case loaded now state a SET_STATUS =
     Inr (stamp now a (state\<lparr> status := payload a \<rparr>))"
| "reducer_case loaded now state a UndefinedType =
     Inr (stamp now a (state\<lparr> performanceMode := Some (payload a) \<rparr>))"
| "reducer_case loaded now state a RESET_STATE =
     Inr ((initialState loaded)\<lparr> timestamp := now \<rparr>)"
| "reducer_case loaded now state a (OtherType t) = Inr state"

definition reducer :: "int \<Rightarrow> int \<Rightarrow> scene_state \<Rightarrow> action \<Rightarrow> js_error + scene_state" where
  "reducer loaded now state a = reducer_case loaded now state a (atype a)"

text \<open>The action creators that the components use.\<close>

definition unlockCubeSecret :: action where
  "unlockCubeSecret = \<lparr> atype = UNLOCK_CUBE_SECRET, payload = JUndefined \<rparr>"

definition unlockSaturnSecret :: action where
  "unlockSaturnSecret = \<lparr> atype = UNLOCK_SATURN_SECRET, payload = JUndefined \<rparr>"

definition unlockTrinitySecret :: action where
  "unlockTrinitySecret = \<lparr> atype = UNLOCK_TRINITY_SECRET, payload = JUndefined \<rparr>"

definition actions_showSaturn :: action where
  "actions_showSaturn = \<lparr> atype = SHOW_SATURN, payload = JUndefined \<rparr>"

definition setStatus :: "jsval \<Rightarrow> action" where
  "setStatus v = \<lparr> atype = SET_STATUS, payload = v \<rparr>"

definition setLoading :: "jsval \<Rightarrow> action" where
  "setLoading v = \<lparr> atype = SET_LOADING, payload = v \<rparr>"

text \<open>
  A clock: the values that the coming calls of \<open>Date.now()\<close> return, in order. A call
  takes the first and leaves the rest.
\<close>

type_synonym clock = "nat \<Rightarrow> int"

definition Date_now :: "clock \<Rightarrow> int \<times> clock" where
  "Date_now clk = (clk 0, \<lambda>n. clk (Suc n))"

text \<open>
  \<open>sceneStore.dispatch(action)\<close>: the store takes the reducer's result; when the
  reducer throws, the store keeps its state and the exception reaches the caller.
\<close>

definition dispatch :: "int \<Rightarrow> action \<Rightarrow> clock \<times> scene_state \<Rightarrow> js_error + clock \<times> scene_state" where
  "dispatch loaded a cs =
     (let (now, clk') = Date_now (fst cs)
      in case reducer loaded now (snd cs) a of
           Inl e \<Rightarrow> Inl e
         | Inr state' \<Rightarrow> Inr (clk', state'))"

text \<open>Consecutive \<open>dispatch\<close> statements: the first exception ends the sequence.\<close>

fun dispatches :: "int \<Rightarrow> action list \<Rightarrow> clock \<times> scene_state \<Rightarrow> js_error + clock \<times> scene_state" where
  "dispatches loaded [] cs = Inr cs"
| "dispatches loaded (a # as) cs =
     (case dispatch loaded a cs of
        Inl e \<Rightarrow> Inl e
      | Inr cs' \<Rightarrow> dispatches loaded as cs')"

text \<open>
  The root component: its two variables and the store. \<open>onMount\<close> is given the result
  of \<open>urlParams.get('magic_word')\<close> (\<open>None\<close> for \<open>null\<close>).
\<close>

record app =
  mounted :: bool
  magicMode :: bool
  store :: scene_state

definition onMount :: "int \<Rightarrow> string option \<Rightarrow> clock \<Rightarrow> app \<Rightarrow> js_error + app" where
  "onMount loaded magic_word clk this =
     (let this1 = this\<lparr> mounted := True \<rparr>;
          ready = [setStatus (JStr ''ready''), setLoading (JBool False)]
      in if magic_word = Some ''abracadabra'' then
           (case dispatches loaded
                   ([unlockCubeSecret, unlockSaturnSecret, unlockTrinitySecret] @ ready)
                   (clk, store this1) of
              Inl e \<Rightarrow> Inl e
            | Inr cs \<Rightarrow> Inr (this1\<lparr> magicMode := True, store := snd cs \<rparr>))
         else
           (case dispatches loaded ready (clk, store this1) of
              Inl e \<Rightarrow> Inl e
            | Inr cs \<Rightarrow> Inr (this1\<lparr> store := snd cs \<rparr>)))"


section \<open>The cube: alignment with a corner diagonal\<close>

text \<open>
  \<open>exact\<close> does not round. With it in the place of \<open>round_double\<close>, the operations
  below compute in the real numbers; the proofs compare the doubles of the code with
  these values.
\<close>

definition exact :: "real \<Rightarrow> real" where
  "exact x = x"

text \<open>
  \<open>THREE.Vector3\<close> and the operations of three.js that the frame callback uses. Each
  takes the rounding \<open>rnd\<close> of the arithmetic as its first argument and applies it to
  the result of every operation, in the order in which JavaScript evaluates them.
\<close>

datatype vector3 = Vector3 (vx: real) (vy: real) (vz: real)

definition sub :: "(real \<Rightarrow> real) \<Rightarrow> vector3 \<Rightarrow> vector3 \<Rightarrow> vector3" where
  "sub rnd a b = Vector3 (rnd (vx a - vx b)) (rnd (vy a - vy b)) (rnd (vz a - vz b))"

definition add :: "(real \<Rightarrow> real) \<Rightarrow> vector3 \<Rightarrow> vector3 \<Rightarrow> vector3" where
  "add rnd a b = Vector3 (rnd (vx a + vx b)) (rnd (vy a + vy b)) (rnd (vz a + vz b))"

definition dot :: "(real \<Rightarrow> real) \<Rightarrow> vector3 \<Rightarrow> vector3 \<Rightarrow> real" where
  "dot rnd a b = rnd (rnd (rnd (vx a * vx b) + rnd (vy a * vy b)) + rnd (vz a * vz b))"

definition vlength :: "(real \<Rightarrow> real) \<Rightarrow> vector3 \<Rightarrow> real" where
  "vlength rnd a =
     rnd (sqrt (rnd (rnd (rnd (vx a * vx a) + rnd (vy a * vy a)) + rnd (vz a * vz a))))"

definition multiplyScalar :: "(real \<Rightarrow> real) \<Rightarrow> vector3 \<Rightarrow> real \<Rightarrow> vector3" where
  "multiplyScalar rnd a k = Vector3 (rnd (vx a * k)) (rnd (vy a * k)) (rnd (vz a * k))"

text \<open>\<open>normalize()\<close> is \<open>divideScalar(length() || 1)\<close>, a multiplication by the inverse.\<close>

definition normalize :: "(real \<Rightarrow> real) \<Rightarrow> vector3 \<Rightarrow> vector3" where
  "normalize rnd a =
     multiplyScalar rnd a (rnd (1 / (if vlength rnd a = 0 then 1 else vlength rnd a)))"

text \<open>
  \<open>THREE.Euler\<close> in its default order \<open>XYZ\<close>, and \<open>THREE.Quaternion\<close>. \<open>Math.cos\<close>,
  \<open>Math.sin\<close> and \<open>Math.pow\<close> are taken to return the rounded exact value.
\<close>

datatype euler = Euler (ex: real) (ey: real) (ez: real)

datatype quaternion = Quaternion (qx: real) (qy: real) (qz: real) (qw: real)

definition setFromEuler :: "(real \<Rightarrow> real) \<Rightarrow> euler \<Rightarrow> quaternion" where
  "setFromEuler rnd e =
     (let c1 = rnd (cos (rnd (ex e / 2))); c2 = rnd (cos (rnd (ey e / 2)));
          c3 = rnd (cos (rnd (ez e / 2)));
          s1 = rnd (sin (rnd (ex e / 2))); s2 = rnd (sin (rnd (ey e / 2)));
          s3 = rnd (sin (rnd (ez e / 2)))
      in Quaternion (rnd (rnd (rnd (s1 * c2) * c3) + rnd (rnd (c1 * s2) * s3)))
                    (rnd (rnd (rnd (c1 * s2) * c3) - rnd (rnd (s1 * c2) * s3)))
                    (rnd (rnd (rnd (c1 * c2) * s3) + rnd (rnd (s1 * s2) * c3)))
                    (rnd (rnd (rnd (c1 * c2) * c3) - rnd (rnd (s1 * s2) * s3))))"

definition applyQuaternion :: "(real \<Rightarrow> real) \<Rightarrow> vector3 \<Rightarrow> quaternion \<Rightarrow> vector3" where
  "applyQuaternion rnd v q =
     (let tx = rnd (2 * rnd (rnd (qy q * vz v) - rnd (qz q * vy v)));
          ty = rnd (2 * rnd (rnd (qz q * vx v) - rnd (qx q * vz v)));
          tz = rnd (2 * rnd (rnd (qx q * vy v) - rnd (qy q * vx v)))
      in Vector3 (rnd (rnd (rnd (vx v + rnd (qw q * tx)) + rnd (qy q * tz)) - rnd (qz q * ty)))
                 (rnd (rnd (rnd (vy v + rnd (qw q * ty)) + rnd (qz q * tx)) - rnd (qx q * tz)))
                 (rnd (rnd (rnd (vz v + rnd (qw q * tz)) + rnd (qx q * ty)) - rnd (qy q * tx))))"

definition applyEuler :: "(real \<Rightarrow> real) \<Rightarrow> vector3 \<Rightarrow> euler \<Rightarrow> vector3" where
  "applyEuler rnd v e = applyQuaternion rnd v (setFromEuler rnd e)"

text \<open>The eight corner directions of the cube in its local space.\<close>

definition localCorners :: "(real \<Rightarrow> real) \<Rightarrow> vector3 list" where
  "localCorners rnd =
     [normalize rnd (Vector3 1 1 1), normalize rnd (Vector3 1 1 (-1)),
      normalize rnd (Vector3 1 (-1) 1), normalize rnd (Vector3 1 (-1) (-1)),
      normalize rnd (Vector3 (-1) 1 1), normalize rnd (Vector3 (-1) 1 (-1)),
      normalize rnd (Vector3 (-1) (-1) 1), normalize rnd (Vector3 (-1) (-1) (-1))]"

definition worldCorners :: "(real \<Rightarrow> real) \<Rightarrow> euler \<Rightarrow> vector3 list" where
  "worldCorners rnd rotation = map (\<lambda>corner. applyEuler rnd corner rotation) (localCorners rnd)"

text \<open>
  The loop over the rotated corners: \<open>maxAlignment\<close> starts at \<open>0\<close> and takes the
  maximum with \<open>|viewDir . corner|\<close> for every corner.
\<close>

definition cornerAlignment :: "(real \<Rightarrow> real) \<Rightarrow> vector3 \<Rightarrow> euler \<Rightarrow> real" where
  "cornerAlignment rnd viewDir rotation =
     foldl (\<lambda>maxAlignment corner. max maxAlignment \<bar>dot rnd viewDir corner\<bar>) 0
       (worldCorners rnd rotation)"

text \<open>
  The strength that the frame callback computes: \<open>cube\<close> is the cube mesh (\<open>None\<close>
  before it exists) with its position and rotation. The maximum stays \<open>0\<close> on the
  Saturn tableau, and the strength is \<open>0\<close> under auto-rotation.
\<close>

definition viewDir :: "(real \<Rightarrow> real) \<Rightarrow> vector3 \<Rightarrow> vector3 \<Rightarrow> vector3" where
  "viewDir rnd cameraPosition position = normalize rnd (sub rnd cameraPosition position)"

definition maxAlignment ::
  "(real \<Rightarrow> real) \<Rightarrow> bool \<Rightarrow> (vector3 \<times> euler) option \<Rightarrow> vector3 \<Rightarrow> real" where
  "maxAlignment rnd showSaturn_flag cube cameraPosition =
     (case cube of
        Some (position, rotation) \<Rightarrow>
          if \<not> showSaturn_flag
          then cornerAlignment rnd (viewDir rnd cameraPosition position) rotation
          else 0
      | None \<Rightarrow> 0)"

definition hexagonStrength ::
  "(real \<Rightarrow> real) \<Rightarrow> bool \<Rightarrow> bool \<Rightarrow> (vector3 \<times> euler) option \<Rightarrow> vector3 \<Rightarrow> real" where
  "hexagonStrength rnd autoRotate_flag showSaturn_flag cube cameraPosition =
     (if autoRotate_flag then 0
      else rnd ((maxAlignment rnd showSaturn_flag cube cameraPosition) ^ 100))"

text \<open>
  The doubles that occur when the corner direction \<open>(1,1,1)\<close> is normalised and
  multiplied with itself: the length, its inverse, the square of a component, and the
  sum of the three squares.
\<close>

definition double_sqrt3 :: real where
  "double_sqrt3 = 7800463371553962 / 2 ^ 52"

definition double_inv_sqrt3 :: real where
  "double_inv_sqrt3 = 5200308914369309 / 2 ^ 53"

definition double_third :: real where
  "double_third = 6004799503160663 / 2 ^ 54"

definition double_above_1 :: real where
  "double_above_1 = 4503599627370497 / 2 ^ 52"

text \<open>
  For the analysis of the rounding errors: \<open>approx e A x x0\<close> says that \<open>x\<close> is within
  \<open>e\<close> of \<open>x0\<close>, whose magnitude is at most \<open>A\<close>, and \<open>vclose\<close> says so of each
  component of a vector. \<open>rounded_rotation e\<close> is the rotation whose half angles are the
  doubles that \<open>setFromEuler\<close> passes to \<open>Math.cos\<close> and \<open>Math.sin\<close>.
\<close>

definition approx :: "real \<Rightarrow> real \<Rightarrow> real \<Rightarrow> real \<Rightarrow> bool" where
  "approx e A x x0 \<longleftrightarrow> \<bar>x - x0\<bar> \<le> e \<and> \<bar>x0\<bar> \<le> A"

definition vclose :: "real \<Rightarrow> real \<Rightarrow> vector3 \<Rightarrow> vector3 \<Rightarrow> bool" where
  "vclose e A v v0 \<longleftrightarrow>
     approx e A (vx v) (vx v0) \<and> approx e A (vy v) (vy v0) \<and> approx e A (vz v) (vz v0)"

definition rounded_rotation :: "euler \<Rightarrow> euler" where
  "rounded_rotation e =
     Euler (2 * round_double (ex e / 2)) (2 * round_double (ey e / 2)) (2 * round_double (ez e / 2))"

section \<open>The cube: the two-second hold before the unlock\<close>

text \<open>
  The component variables that \<open>updateCubeAppearance\<close> writes, and the material of an
  edge. \<open>yellowEdgeDuration\<close> holds milliseconds after the first part of the function
  and seconds after the edge loop. The division by 1000 is over the real numbers:
  rounding the quotient to a double does not change its comparison with \<open>2.0\<close>.
\<close>

record cube_view =
  yellowEdgeStartTime :: int
  yellowEdgeDuration :: real
  targetCubeOpacity :: real

record edge_material =
  color :: nat
  opacity :: real

definition cube_view_init :: cube_view where
  "cube_view_init = \<lparr> yellowEdgeStartTime = 0, yellowEdgeDuration = 0, targetCubeOpacity = 1 \<rparr>"

text \<open>
  The body of \<open>cubeEdges.forEach\<close> for one edge; \<open>isFrontFacing\<close> comes from the
  geometry of the edge and the camera. The store's state has no property
  \<open>secretUnlocked\<close>, so \<open>!state.secretUnlocked\<close> is true and only the duration guards
  the dispatch. The result lists, for every \<open>unlockCubeSecret\<close> dispatched, the clock
  value at which it was.
\<close>

definition edge_body ::
  "real \<Rightarrow> bool \<Rightarrow> clock \<times> cube_view \<Rightarrow> (clock \<times> cube_view) \<times> int list \<times> edge_material" where
  "edge_body strength isFrontFacing cv =
     (let clk = fst cv; view = snd cv in
      if strength > 0.995 then
        (let view1 = view\<lparr> targetCubeOpacity := 0 \<rparr>;
             (start, clk1) = (if yellowEdgeStartTime view1 = 0 then Date_now clk
                              else (yellowEdgeStartTime view1, clk));
             (now, clk2) = Date_now clk1;
             view2 = view1\<lparr> yellowEdgeStartTime := start,
                             yellowEdgeDuration := real_of_int (now - start) / 1000 \<rparr>
         in ((clk2, view2),
             (if yellowEdgeDuration view2 \<ge> 2.0 then [now] else []),
             \<lparr> color = 0xffcc00, opacity = 1.0 \<rparr>))
      else if strength > 0.95 then
        ((clk, view\<lparr> targetCubeOpacity := 0.1, yellowEdgeStartTime := 0, yellowEdgeDuration := 0 \<rparr>),
         [],
         (if isFrontFacing then \<lparr> color = 0xcccccc, opacity = 0.9 \<rparr>
          else \<lparr> color = 0x666666, opacity = 0.4 \<rparr>))
      else
        ((clk, view\<lparr> targetCubeOpacity := 1.0, yellowEdgeStartTime := 0, yellowEdgeDuration := 0 \<rparr>),
         [],
         \<lparr> color = 0x888888, opacity = 1.0 \<rparr>))"

fun forEach_edge ::
  "real \<Rightarrow> bool list \<Rightarrow> clock \<times> cube_view \<Rightarrow> (clock \<times> cube_view) \<times> int list \<times> edge_material list" where
  "forEach_edge strength [] cv = (cv, [], [])"
| "forEach_edge strength (isFrontFacing # edges) cv =
     (let (cv1, ds1, m) = edge_body strength isFrontFacing cv;
          (cv2, ds2, ms) = forEach_edge strength edges cv1
      in (cv2, ds1 @ ds2, m # ms))"

text \<open>
  \<open>updateCubeAppearance(hexagonStrength)\<close>. \<open>cubeObject\<close> tells whether the cube
  object exists, \<open>unlocked\<close> is \<open>state.cubeSecretUnlocked\<close> as the component sees it
  during the call, \<open>edges\<close> gives \<open>isFrontFacing\<close> and the material of every edge.
  The result is the variables after the call, the clock values of the dispatches of
  \<open>unlockCubeSecret\<close>, and the materials of the edges.
\<close>

definition updateCubeAppearance ::
  "bool \<Rightarrow> bool \<Rightarrow> real \<Rightarrow> (bool \<times> edge_material) list \<Rightarrow> clock \<Rightarrow> cube_view
     \<Rightarrow> cube_view \<times> int list \<times> edge_material list" where
  "updateCubeAppearance cubeObject unlocked strength edges clk view =
     (if \<not> cubeObject then (view, [], map snd edges)
      else
        (let (start, clk1) = (if unlocked \<and> yellowEdgeStartTime view = 0 then Date_now clk
                              else (yellowEdgeStartTime view, clk));
             (duration, now, clk2) = (if start > 0
                                      then (let (n, c) = Date_now clk1 in (real_of_int (n - start), n, c))
                                      else (0, 0, clk1));
             view1 = view\<lparr> yellowEdgeStartTime := start, yellowEdgeDuration := duration \<rparr>;
             (view2, ds) =
               (if strength > 0.995 then
                  (view1\<lparr> targetCubeOpacity := 0.0 \<rparr>,
                   if yellowEdgeDuration view1 \<ge> 2000 then [now] else [])
                else if strength > 0.95 then
                  (view1\<lparr> targetCubeOpacity := 0.1, yellowEdgeStartTime := 0, yellowEdgeDuration := 0 \<rparr>, [])
                else
                  (view1\<lparr> targetCubeOpacity := 1.0, yellowEdgeStartTime := 0, yellowEdgeDuration := 0 \<rparr>, []));
             ((clk3, view3), ds', ms) = forEach_edge strength (map fst edges) (clk2, view2)
         in (view3, ds @ ds', ms)))"

text \<open>
  A frame in which the function runs: what the component, the alignment and the clock
  give it.
\<close>

record frame =
  frame_unlocked :: bool
  frame_strength :: real
  frame_edges :: "(bool \<times> edge_material) list"
  frame_clock :: clock

definition frame_update :: "frame \<Rightarrow> cube_view \<Rightarrow> cube_view \<times> int list \<times> edge_material list" where
  "frame_update f view =
     updateCubeAppearance True (frame_unlocked f) (frame_strength f) (frame_edges f) (frame_clock f) view"

text \<open>The variables after a sequence of frames, and the dispatches of the frame after them.\<close>

definition after_frames :: "frame list \<Rightarrow> cube_view \<Rightarrow> cube_view" where
  "after_frames fs view = foldl (\<lambda>v f. fst (frame_update f v)) view fs"

definition dispatched_in :: "frame list \<Rightarrow> nat \<Rightarrow> int list" where
  "dispatched_in fs k = fst (snd (frame_update (fs ! k) (after_frames (take k fs) cube_view_init)))"

text \<open>
  The clock after \<open>k\<close> calls of \<open>Date.now()\<close>, a value that is among the first \<open>k\<close>
  values of a clock, and a value \<open>t\<close> that lies at least two seconds after the running
  start time or after one of the first \<open>k\<close> values of the clock.
\<close>

definition advanced :: "clock \<Rightarrow> nat \<Rightarrow> clock" where
  "advanced clk k = (\<lambda>n. clk (n + k))"

definition read_within :: "clock \<Rightarrow> nat \<Rightarrow> int \<Rightarrow> bool" where
  "read_within clk k t = (\<exists>n<k. clk n = t)"

definition held_since :: "int \<Rightarrow> clock \<Rightarrow> nat \<Rightarrow> int \<Rightarrow> bool" where
  "held_since start clk k t =
     (\<exists>x. ((x = start \<and> x \<noteq> 0) \<or> read_within clk k x) \<and> t - x \<ge> 2000)"

text \<open>
  The number of calls of \<open>Date.now()\<close> that a frame can make: two before the loop and
  two for every edge.
\<close>

definition frame_reads :: "frame \<Rightarrow> nat" where
  "frame_reads f = 2 * length (frame_edges f) + 2"

text \<open>A frame with one front-facing edge, in which the clock shows \<open>t\<close> throughout.\<close>

definition example_frame :: "int \<Rightarrow> real \<Rightarrow> frame" where
  "example_frame t strength =
     \<lparr> frame_unlocked = False, frame_strength = strength,
       frame_edges = [(True, \<lparr> color = 0x888888, opacity = 1 \<rparr>)],
       frame_clock = (\<lambda>n. t) \<rparr>"

section \<open>Properties of the rounding\<close>

lemma rne_eval:
  assumes "real_of_int n - 1/2 < r" "r < real_of_int n + 1/2"
  shows "rne r = n"
proof (cases "real_of_int n \<le> r")
  case True
  then have f: "\<lfloor>r\<rfloor> = n" using assms by (simp add: floor_eq_iff)
  have "r - of_int n < 1/2" using assms by simp
  then show ?thesis by (simp add: rne_def f Let_def)
next
  case False
  then have f: "\<lfloor>r\<rfloor> = n - 1" using assms by (simp add: floor_eq_iff)
  have "1/2 < r - of_int (n - 1)" using assms by simp
  then show ?thesis by (simp add: rne_def f Let_def)
qed

lemma rne_int: "rne (real_of_int n) = n"
  by (rule rne_eval) simp_all

lemma round_double_eval:
  assumes lo: "2 ^ 52 \<le> \<bar>x\<bar> * 2 ^ j" and hi: "\<bar>x\<bar> * 2 ^ j < 2 ^ 53"
  shows "round_double x = real_of_int (rne (x * 2 ^ j)) / 2 ^ j"
proof -
  have x0: "x \<noteq> 0" using lo by auto
  then have pos: "0 < \<bar>x\<bar>" by simp
  have p: "(2::real) powr (52 - real j) = 2 ^ 52 / 2 ^ j" "(2::real) powr (53 - real j) = 2 ^ 53 / 2 ^ j"
    by (simp_all add: powr_diff powr_realpow)
  have "(2::real) powr (52 - real j) \<le> \<bar>x\<bar>"
    unfolding p(1) using lo by (simp add: field_simps)
  then have l1: "52 - real j \<le> log 2 \<bar>x\<bar>"
    using pos by (simp add: le_log_iff)
  have "\<bar>x\<bar> < (2::real) powr (53 - real j)"
    unfolding p(2) using hi by (simp add: field_simps)
  then have l2: "log 2 \<bar>x\<bar> < 53 - real j"
    using pos by (simp add: log_less_iff)
  have e: "\<lfloor>log 2 \<bar>x\<bar>\<rfloor> = 52 - int j"
    using l1 l2 by (simp add: floor_eq_iff)
  have q: "(2::real) powr (- real j) = 1 / 2 ^ j"
    by (simp add: powr_minus powr_realpow inverse_eq_divide)
  show ?thesis
    using x0 by (simp add: round_double_def e Let_def q)
qed

lemma round_double_exact:
  assumes "2 ^ 52 \<le> \<bar>m\<bar>" "\<bar>m\<bar> < 2 ^ 53"
  shows "round_double (real_of_int m / 2 ^ j) = real_of_int m / 2 ^ j"
proof -
  have "round_double (real_of_int m / 2 ^ j)
          = real_of_int (rne (real_of_int m / 2 ^ j * 2 ^ j)) / 2 ^ j"
  proof (rule round_double_eval)
    have "\<bar>real_of_int m / 2 ^ j\<bar> * 2 ^ j = \<bar>real_of_int m\<bar>" by (simp add: abs_divide)
    moreover have "real_of_int (2 ^ 52) \<le> real_of_int \<bar>m\<bar>"
      "real_of_int \<bar>m\<bar> < real_of_int (2 ^ 53)"
      using assms by (simp_all only: of_int_le_iff of_int_less_iff)
    then have "(2::real) ^ 52 \<le> \<bar>real_of_int m\<bar>" "\<bar>real_of_int m\<bar> < (2::real) ^ 53"
      by simp_all
    ultimately show "2 ^ 52 \<le> \<bar>real_of_int m / 2 ^ j\<bar> * 2 ^ j"
      "\<bar>real_of_int m / 2 ^ j\<bar> * 2 ^ j < 2 ^ 53" by simp_all
  qed
  then show ?thesis by (simp add: rne_int)
qed

lemma round_double_0: "round_double 0 = 0"
  by (simp add: round_double_def)

lemma round_double_1: "round_double 1 = 1"
  using round_double_exact [of "2 ^ 52" 52] by simp

lemma round_double_2: "round_double 2 = 2"
  using round_double_exact [of "2 ^ 52" 51] by simp

lemma round_double_3: "round_double 3 = 3"
  using round_double_exact [of "3 * 2 ^ 51" 51] by simp


lemma rne_near: "\<bar>real_of_int (rne r) - r\<bar> \<le> 1/2"
proof -
  have "of_int \<lfloor>r\<rfloor> \<le> r" "r < of_int \<lfloor>r\<rfloor> + 1" by linarith+
  then show ?thesis by (auto simp add: rne_def Let_def)
qed

lemma round_double_rel: "\<bar>round_double x - x\<bar> \<le> \<bar>x\<bar> / 2 ^ 53"
proof (cases "x = 0")
  case True
  then show ?thesis by (simp add: round_double_def)
next
  case False
  define e where "e = \<lfloor>log 2 \<bar>x\<bar>\<rfloor>"
  define p where "p = 2 powr real_of_int (e - 52)"
  have pos: "0 < \<bar>x\<bar>" using False by simp
  have p0: "0 < p" by (simp add: p_def)
  have "real_of_int e \<le> log 2 \<bar>x\<bar>" unfolding e_def by linarith
  then have "2 powr real_of_int e \<le> \<bar>x\<bar>" using pos by (simp add: le_log_iff)
  moreover have "2 powr real_of_int e = p * 2 ^ 52"
    by (simp add: p_def powr_diff powr_realpow [symmetric])
  ultimately have px: "p * 2 ^ 52 \<le> \<bar>x\<bar>" by simp
  have r: "round_double x = of_int (rne (x / p)) * p"
    using False by (simp add: round_double_def Let_def e_def p_def)
  have "round_double x - x = (of_int (rne (x / p)) - x / p) * p"
    unfolding r using p0 by (simp add: field_simps)
  then have "\<bar>round_double x - x\<bar> = \<bar>of_int (rne (x / p)) - x / p\<bar> * p"
    using p0 by (simp add: abs_mult)
  also have "\<dots> \<le> 1/2 * p"
    using rne_near [of "x / p"] p0 by (intro mult_right_mono) simp_all
  also have "\<dots> = p * 2 ^ 52 / 2 ^ 53" by simp
  also have "\<dots> \<le> \<bar>x\<bar> / 2 ^ 53" using px by (intro divide_right_mono) simp_all
  finally show ?thesis .
qed

lemma round_double_between:
  assumes "0 \<le> a" "a \<le> x" "x \<le> b"
  shows "a * (1 - 1 / 2 ^ 53) \<le> round_double x" "round_double x \<le> b * (1 + 1 / 2 ^ 53)"
proof -
  have x: "\<bar>x\<bar> = x" using assms by simp
  have "\<bar>round_double x - x\<bar> \<le> x / 2 ^ 53" using round_double_rel [of x] x by simp
  then have r: "x - x / 2 ^ 53 \<le> round_double x" "round_double x \<le> x + x / 2 ^ 53"
    by linarith+
  have "a * (1 - 1 / 2 ^ 53) \<le> x * (1 - 1 / 2 ^ 53)" using assms by (intro mult_right_mono) simp_all
  also have "\<dots> = x - x / 2 ^ 53" by (simp add: algebra_simps)
  also note r(1)
  finally show "a * (1 - 1 / 2 ^ 53) \<le> round_double x" .
  note r(2)
  also have "x + x / 2 ^ 53 = x * (1 + 1 / 2 ^ 53)" by (simp add: algebra_simps)
  also have "\<dots> \<le> b * (1 + 1 / 2 ^ 53)" using assms by (intro mult_right_mono) simp_all
  finally show "round_double x \<le> b * (1 + 1 / 2 ^ 53)" .
qed

section \<open>Properties of the wall-clock gate\<close>

lemma containsSix_6: "containsSix 6"
  by code_simp

lemma containsSix_16: "containsSix 16"
  by code_simp

lemma containsSix_26: "containsSix 26"
  by code_simp

lemma containsSix_36: "containsSix 36"
  by code_simp

lemma not_containsSix_5: "\<not> containsSix 5"
  by code_simp

lemmas six_facts = containsSix_6 containsSix_16 containsSix_26 containsSix_36 not_containsSix_5

lemma attempts_append: "attempts (xs @ ys) this = attempts ys (attempts xs this)"
  by (induction xs arbitrary: this) simp_all

lemma checkTimingSecret_locked_bound:
  "(\<not> saturnSecretUnlocked this \<longrightarrow> saturnCounter this \<le> 2) \<Longrightarrow>
   (\<not> saturnSecretUnlocked (snd (checkTimingSecret sec this))
      \<longrightarrow> saturnCounter (snd (checkTimingSecret sec this)) \<le> 2)"
  by (auto simp add: checkTimingSecret_def Let_def)

lemma checkTimingSecret_unlocked_mono:
  "saturnSecretUnlocked this \<Longrightarrow> saturnSecretUnlocked (snd (checkTimingSecret sec this))"
  by (simp add: checkTimingSecret_def Let_def)

lemma checkTimingSecret_counter_step:
  "saturnCounter (snd (checkTimingSecret sec this)) \<le> saturnCounter this + 1"
  by (simp add: checkTimingSecret_def Let_def)

lemma attempts_locked_bound:
  "(\<not> saturnSecretUnlocked this \<longrightarrow> saturnCounter this \<le> 2) \<Longrightarrow>
   (\<not> saturnSecretUnlocked (attempts secs this) \<longrightarrow> saturnCounter (attempts secs this) \<le> 2)"
proof (induction secs arbitrary: this)
  case Nil
  then show ?case by simp
next
  case (Cons sec secs)
  have "\<not> saturnSecretUnlocked (snd (checkTimingSecret sec this)) \<longrightarrow>
        saturnCounter (snd (checkTimingSecret sec this)) \<le> 2"
    using Cons.prems by (rule checkTimingSecret_locked_bound)
  from Cons.IH [OF this] show ?case by simp
qed

lemma attempts_counter_length:
  "saturnCounter (attempts secs this) \<le> saturnCounter this + length secs"
proof (induction secs arbitrary: this)
  case Nil
  then show ?case by simp
next
  case (Cons sec secs)
  have "saturnCounter (attempts secs (snd (checkTimingSecret sec this)))
          \<le> saturnCounter (snd (checkTimingSecret sec this)) + length secs"
    by (rule Cons.IH)
  also have "\<dots> \<le> saturnCounter this + 1 + length secs"
    using checkTimingSecret_counter_step [of sec this] by simp
  finally show ?case by simp
qed

lemma attempts_unlocked_mono:
  "saturnSecretUnlocked this \<Longrightarrow> saturnSecretUnlocked (attempts secs this)"
  by (induction secs arbitrary: this) (simp_all add: checkTimingSecret_unlocked_mono)

text \<open>
  Claim C2. From the constructor's state, attempts at seconds 06, 16 and 26 bring the
  counter to 1, 2 and 3; the first two return \<open>false\<close>, the third returns \<open>true\<close> and
  sets the unlocked flag. A second attempt at the same seconds value changes nothing
  and returns \<open>false\<close>, at 06 after the first and for any seconds value in any state.
  After 06 and 16 the counter is 2 and an attempt at 05 sets it to 0, as does an
  attempt at any seconds value without the digit 6 in any state.
\<close>

theorem clock_gate_06_16_26:
  "(let r1 = checkTimingSecret 6 saturn_constructor;
        r2 = checkTimingSecret 16 (snd r1);
        r3 = checkTimingSecret 26 (snd r2)
    in saturnCounter (snd r1) = 1 \<and> saturnCounter (snd r2) = 2 \<and> saturnCounter (snd r3) = 3
       \<and> \<not> fst r1 \<and> \<not> fst r2 \<and> fst r3 \<and> saturnSecretUnlocked (snd r3))
   \<and> saturnCounter (snd (checkTimingSecret 6 saturn_constructor)) = 1
   \<and> checkTimingSecret 6 (snd (checkTimingSecret 6 saturn_constructor))
       = (False, snd (checkTimingSecret 6 saturn_constructor))
   \<and> checkTimingSecret sec (snd (checkTimingSecret sec this))
       = (False, snd (checkTimingSecret sec this))
   \<and> saturnCounter (attempts [6, 16] saturn_constructor) = 2
   \<and> saturnCounter (attempts [6, 16, 5] saturn_constructor) = 0
   \<and> (\<not> containsSix sec \<longrightarrow> saturnCounter (snd (checkTimingSecret sec this)) = 0)"
  by (simp add: checkTimingSecret_def Let_def six_facts saturn_constructor_def)

theorem clock_gate_06_16_26_witness:
  "\<not> containsSix 5
   \<and> saturnCounter (attempts [6, 16] saturn_constructor) = 2
   \<and> saturnCounter (snd (checkTimingSecret 5 (attempts [6, 16] saturn_constructor))) = 0"
  using clock_gate_06_16_26 [of 5 "attempts [6, 16] saturn_constructor"]
  by (simp add: not_containsSix_5)

text \<open>
  Claim C6, as stated, fails: the function does not look at the unlocked flag, so a
  fourth attempt at 36 after 06, 16 and 26 brings the counter to 4, and an attempt at 05
  after the unlock sets it back to 0.
\<close>

theorem clock_gate_counter_exceeds_3:
  "saturnCounter (attempts [6, 16, 26, 36] saturn_constructor) = 4
   \<and> \<not> saturnCounter (attempts [6, 16, 26, 36] saturn_constructor) \<le> 3
   \<and> saturnSecretUnlocked (attempts [6, 16, 26] saturn_constructor)
   \<and> saturnCounter (attempts [6, 16, 26] saturn_constructor) = 3
   \<and> saturnCounter (attempts [6, 16, 26, 5] saturn_constructor) = 0"
  by (simp add: checkTimingSecret_def Let_def six_facts saturn_constructor_def)

text \<open>
  Claim C6, amended. After any sequence of attempts from the constructor's state, the
  counter is at most 2 as long as the unlocked flag is false, and never more than the
  number of attempts; the unlocked flag, once true, stays true under any further
  attempts.
\<close>

theorem clock_gate_counter_invariant:
  "(\<not> saturnSecretUnlocked (attempts secs saturn_constructor)
      \<longrightarrow> saturnCounter (attempts secs saturn_constructor) \<le> 2)
   \<and> saturnCounter (attempts secs saturn_constructor) \<le> length secs
   \<and> (saturnSecretUnlocked (attempts secs saturn_constructor)
      \<longrightarrow> saturnSecretUnlocked (attempts (secs @ later) saturn_constructor))"
proof (intro conjI)
  have "\<not> saturnSecretUnlocked saturn_constructor \<longrightarrow> saturnCounter saturn_constructor \<le> 2"
    by (simp add: saturn_constructor_def)
  then show "\<not> saturnSecretUnlocked (attempts secs saturn_constructor)
      \<longrightarrow> saturnCounter (attempts secs saturn_constructor) \<le> 2"
    by (rule attempts_locked_bound)
next
  show "saturnCounter (attempts secs saturn_constructor) \<le> length secs"
    using attempts_counter_length [of secs saturn_constructor]
    by (simp add: saturn_constructor_def)
next
  show "saturnSecretUnlocked (attempts secs saturn_constructor)
      \<longrightarrow> saturnSecretUnlocked (attempts (secs @ later) saturn_constructor)"
    by (simp add: attempts_append attempts_unlocked_mono)
qed

theorem clock_gate_counter_invariant_witness:
  "\<not> saturnSecretUnlocked (attempts [6, 16] saturn_constructor)
   \<and> saturnCounter (attempts [6, 16] saturn_constructor) \<le> 2
   \<and> saturnSecretUnlocked (attempts [6, 16, 26] saturn_constructor)
   \<and> saturnSecretUnlocked (attempts ([6, 16, 26] @ [5]) saturn_constructor)"
  using clock_gate_counter_invariant [of "[6, 16]" "[]"]
        clock_gate_counter_invariant [of "[6, 16, 26]" "[5]"]
  by (simp add: checkTimingSecret_def Let_def six_facts saturn_constructor_def)

section \<open>Properties of the click sequence\<close>

lemma reset_fields:
  "metatronClicks (reset this) = []" "showMetatron (reset this) = False"
  "flowerGroup (reset this) = flowerGroup this"
  "map snd (nodeMap (reset this)) = replicate (length (nodeMap this)) white"
  "map fst (nodeMap (reset this)) = map fst (nodeMap this)"
  by (simp_all add: reset_def map_replicate_const case_prod_unfold comp_def)

lemma handleClick_completed:
  "showMetatron this \<Longrightarrow> handleClick h this = Inr (False, this)"
  by (simp add: handleClick_def)

lemma handleClick_wrong:
  "\<not> showMetatron this \<Longrightarrow> flowerGroup this = Some v \<Longrightarrow>
   array_get FRUIT_OF_LIFE_ORDER (length (metatronClicks this)) \<noteq> Some clickedId \<Longrightarrow>
   handleClick (HitNode clickedId) this = Inr (False, reset this)"
  by (auto simp add: handleClick_def Let_def)

lemma thirteen_clicks:
  assumes "flowerGroup this = Some v" "metatronClicks this = []" "\<not> showMetatron this"
  shows "map (map_sum id (\<lambda>(r, s). (r, showMetatron s, metatronClicks s)))
           (handleClicks (map HitNode FRUIT_OF_LIFE_ORDER) this)
         = map (\<lambda>k. Inr (True, k = 13, take k FRUIT_OF_LIFE_ORDER)) [1..<14]"
  using assms
  by (simp add: handleClick_def Let_def FRUIT_OF_LIFE_ORDER_def array_get_def upt_rec)

lemma created_fields:
  "flowerGroup (create flower_constructor) = Some False"
  "metatronClicks (create flower_constructor) = []"
  "showMetatron (create flower_constructor) = False"
  by (simp_all add: create_def flower_constructor_def)

lemma after_two_clicks:
  "metatronClicks (afterClicks [HitNode 0, HitNode 1] (create flower_constructor)) = [0, 1]"
  "showMetatron (afterClicks [HitNode 0, HitNode 1] (create flower_constructor)) = False"
  "flowerGroup (afterClicks [HitNode 0, HitNode 1] (create flower_constructor)) = Some False"
  by (simp_all add: handleClick_def Let_def FRUIT_OF_LIFE_ORDER_def array_get_def
        create_def flower_constructor_def)

lemma after_all_clicks:
  "metatronClicks (afterClicks (map HitNode FRUIT_OF_LIFE_ORDER) (create flower_constructor))
     = FRUIT_OF_LIFE_ORDER"
  "showMetatron (afterClicks (map HitNode FRUIT_OF_LIFE_ORDER) (create flower_constructor)) = True"
  "flowerGroup (afterClicks (map HitNode FRUIT_OF_LIFE_ORDER) (create flower_constructor)) = Some False"
  "map snd (nodeMap (afterClicks (map HitNode FRUIT_OF_LIFE_ORDER) (create flower_constructor)))
     = replicate 13 dimmed"
  by (simp_all add: handleClick_def Let_def FRUIT_OF_LIFE_ORDER_def array_get_def
        create_def flower_constructor_def upt_rec setColor_def numeral_eq_Suc)

text \<open>
  Claim C1. On a created flower whose click sequence is empty and whose pattern is not
  complete, clicking the thirteen nodes in the order of \<open>FRUIT_OF_LIFE_ORDER\<close> is
  accepted every time, and the completed flag \<open>showMetatron\<close> is false after each of
  the first twelve clicks and true after the thirteenth. While the pattern is not
  complete, a click on a node whose id is not the next expected one is rejected and
  resets the object, which empties the click sequence. Once the pattern is complete,
  every click is rejected and changes nothing.
\<close>

theorem sequence_gate_order:
  "(flowerGroup this = Some v \<and> metatronClicks this = [] \<and> \<not> showMetatron this \<longrightarrow>
      map (map_sum id (\<lambda>(r, s). (r, showMetatron s, metatronClicks s)))
        (handleClicks (map HitNode FRUIT_OF_LIFE_ORDER) this)
      = map (\<lambda>k. Inr (True, k = 13, take k FRUIT_OF_LIFE_ORDER)) [1..<14])
   \<and> (\<not> showMetatron this' \<and> flowerGroup this' = Some v'
        \<and> array_get FRUIT_OF_LIFE_ORDER (length (metatronClicks this')) \<noteq> Some clickedId \<longrightarrow>
      handleClick (HitNode clickedId) this' = Inr (False, reset this')
      \<and> metatronClicks (reset this') = [])
   \<and> (showMetatron this'' \<longrightarrow> handleClick h this'' = Inr (False, this''))"
  using thirteen_clicks [of this v] handleClick_wrong [of this' v' clickedId]
    handleClick_completed [of this'' h] reset_fields(1) [of this']
  by blast

theorem sequence_gate_order_witness:
  "flowerGroup (create flower_constructor) = Some False
   \<and> metatronClicks (create flower_constructor) = []
   \<and> \<not> showMetatron (create flower_constructor)
   \<and> map (map_sum id (\<lambda>(r, s). (r, showMetatron s, metatronClicks s)))
        (handleClicks (map HitNode FRUIT_OF_LIFE_ORDER) (create flower_constructor))
      = map (\<lambda>k. Inr (True, k = 13, take k FRUIT_OF_LIFE_ORDER)) [1..<14]
   \<and> metatronClicks (afterClicks [HitNode 0, HitNode 1] (create flower_constructor)) = [0, 1]
   \<and> array_get FRUIT_OF_LIFE_ORDER 2 = Some 3
   \<and> handleClick (HitNode 2) (afterClicks [HitNode 0, HitNode 1] (create flower_constructor))
      = Inr (False, reset (afterClicks [HitNode 0, HitNode 1] (create flower_constructor)))
   \<and> metatronClicks (reset (afterClicks [HitNode 0, HitNode 1] (create flower_constructor))) = []
   \<and> showMetatron (afterClicks (map HitNode FRUIT_OF_LIFE_ORDER) (create flower_constructor))
   \<and> handleClick (HitNode 0) (afterClicks (map HitNode FRUIT_OF_LIFE_ORDER) (create flower_constructor))
      = Inr (False, afterClicks (map HitNode FRUIT_OF_LIFE_ORDER) (create flower_constructor))"
proof -
  let ?c = "create flower_constructor"
  let ?two = "afterClicks [HitNode 0, HitNode 1] ?c"
  let ?all = "afterClicks (map HitNode FRUIT_OF_LIFE_ORDER) ?c"
  note gate = sequence_gate_order [of ?c False ?two False 2 ?all "HitNode 0"]
  have third: "array_get FRUIT_OF_LIFE_ORDER 2 = Some 3"
    by (simp add: array_get_def FRUIT_OF_LIFE_ORDER_def)
  have wrong: "array_get FRUIT_OF_LIFE_ORDER (length (metatronClicks ?two)) \<noteq> Some 2"
    unfolding after_two_clicks(1) by (simp add: array_get_def FRUIT_OF_LIFE_ORDER_def)
  from gate created_fields have "map (map_sum id (\<lambda>(r, s). (r, showMetatron s, metatronClicks s)))
        (handleClicks (map HitNode FRUIT_OF_LIFE_ORDER) ?c)
      = map (\<lambda>k. Inr (True, k = 13, take k FRUIT_OF_LIFE_ORDER)) [1..<14]"
    by simp
  moreover from gate wrong after_two_clicks(2,3)
  have "handleClick (HitNode 2) ?two = Inr (False, reset ?two) \<and> metatronClicks (reset ?two) = []"
    by blast
  moreover from gate after_all_clicks(2)
  have "handleClick (HitNode 0) ?all = Inr (False, ?all)"
    by blast
  ultimately show ?thesis
    using created_fields after_two_clicks(1) third after_all_clicks(2) by blast
qed

lemma show_created:
  "flowerGroup this = Some v \<Longrightarrow> show this = reset (this\<lparr> flowerGroup := Some True \<rparr>)"
  by (simp add: show_def)

lemma sync_leave_enter:
  assumes "flowerGroup this = Some v"
  shows "\<exists>left. syncFlowerVisibility False this = Inr left
          \<and> syncFlowerVisibility True left = Inr (show left)
          \<and> flowerGroup left = Some False
          \<and> nodeMap left = nodeMap this"
  using assms by (cases v) (simp_all add: syncFlowerVisibility_def hide_def)

text \<open>
  Claim C10. \<open>hide()\<close> sets \<open>showMetatron\<close> to false. On a created flower, \<open>show()\<close>
  makes the group visible and resets: the click sequence is empty, \<open>showMetatron\<close> is
  false and every circle is white again. So hiding and showing, directly or through
  the scene component's visibility block when the store leaves the flower tableau and
  comes back, restarts the puzzle, whatever the state before.
\<close>

theorem flower_navigation_restarts:
  "showMetatron (hide this) = False
   \<and> (flowerGroup this = Some v \<longrightarrow>
        show this = reset (this\<lparr> flowerGroup := Some True \<rparr>)
        \<and> metatronClicks (show this) = []
        \<and> showMetatron (show this) = False
        \<and> map snd (nodeMap (show this)) = replicate (length (nodeMap this)) white
        \<and> metatronClicks (show (hide this)) = []
        \<and> showMetatron (show (hide this)) = False
        \<and> flowerGroup (show (hide this)) = Some True
        \<and> map snd (nodeMap (show (hide this))) = replicate (length (nodeMap this)) white
        \<and> (\<exists>left. syncFlowerVisibility False this = Inr left
              \<and> syncFlowerVisibility True left = Inr (show left)
              \<and> metatronClicks (show left) = []
              \<and> showMetatron (show left) = False
              \<and> flowerGroup (show left) = Some True
              \<and> map snd (nodeMap (show left)) = replicate (length (nodeMap this)) white))"
proof (intro conjI impI)
  show "showMetatron (hide this) = False" by (simp add: hide_def)
next
  assume g: "flowerGroup this = Some v"
  show "show this = reset (this\<lparr> flowerGroup := Some True \<rparr>)"
    using g by (rule show_created)
  then show "metatronClicks (show this) = []" "showMetatron (show this) = False"
    "map snd (nodeMap (show this)) = replicate (length (nodeMap this)) white"
    by (simp_all add: reset_fields)
  have h: "flowerGroup (hide this) = Some False" "nodeMap (hide this) = nodeMap this"
    using g by (simp_all add: hide_def)
  have sh: "show (hide this) = reset ((hide this)\<lparr> flowerGroup := Some True \<rparr>)"
    using h(1) by (rule show_created)
  show "metatronClicks (show (hide this)) = []" "showMetatron (show (hide this)) = False"
    "flowerGroup (show (hide this)) = Some True"
    "map snd (nodeMap (show (hide this))) = replicate (length (nodeMap this)) white"
    by (simp_all add: sh reset_fields h(2))
  from sync_leave_enter [OF g] obtain left where l:
    "syncFlowerVisibility False this = Inr left" "syncFlowerVisibility True left = Inr (show left)"
    "flowerGroup left = Some False" "nodeMap left = nodeMap this"
    by blast
  have sl: "show left = reset (left\<lparr> flowerGroup := Some True \<rparr>)"
    using l(3) by (rule show_created)
  show "\<exists>left. syncFlowerVisibility False this = Inr left
              \<and> syncFlowerVisibility True left = Inr (show left)
              \<and> metatronClicks (show left) = []
              \<and> showMetatron (show left) = False
              \<and> flowerGroup (show left) = Some True
              \<and> map snd (nodeMap (show left)) = replicate (length (nodeMap this)) white"
    using l(1,2) by (intro exI [of _ left]) (simp add: sl reset_fields l(4))
qed

theorem flower_navigation_restarts_witness:
  "flowerGroup (afterClicks (map HitNode FRUIT_OF_LIFE_ORDER) (create flower_constructor)) = Some False
   \<and> showMetatron (afterClicks (map HitNode FRUIT_OF_LIFE_ORDER) (create flower_constructor))
   \<and> metatronClicks (afterClicks (map HitNode FRUIT_OF_LIFE_ORDER) (create flower_constructor))
       = FRUIT_OF_LIFE_ORDER
   \<and> map snd (nodeMap (afterClicks (map HitNode FRUIT_OF_LIFE_ORDER) (create flower_constructor)))
       = replicate 13 dimmed
   \<and> showMetatron (hide (afterClicks (map HitNode FRUIT_OF_LIFE_ORDER) (create flower_constructor)))
       = False
   \<and> metatronClicks (show (hide (afterClicks (map HitNode FRUIT_OF_LIFE_ORDER)
         (create flower_constructor)))) = []
   \<and> showMetatron (show (hide (afterClicks (map HitNode FRUIT_OF_LIFE_ORDER)
         (create flower_constructor)))) = False
   \<and> map snd (nodeMap (show (hide (afterClicks (map HitNode FRUIT_OF_LIFE_ORDER)
         (create flower_constructor))))) = replicate 13 white"
proof -
  let ?all = "afterClicks (map HitNode FRUIT_OF_LIFE_ORDER) (create flower_constructor)"
  note nav = flower_navigation_restarts [of ?all False]
  have len: "length (nodeMap ?all) = 13"
    using arg_cong [OF after_all_clicks(4), of length] by (simp only: length_map length_replicate)
  from nav after_all_clicks(3)
  have "showMetatron (hide ?all) = False \<and> metatronClicks (show (hide ?all)) = []
        \<and> showMetatron (show (hide ?all)) = False
        \<and> map snd (nodeMap (show (hide ?all))) = replicate (length (nodeMap ?all)) white"
    by blast
  then show ?thesis
    unfolding len using after_all_clicks by blast
qed

section \<open>Properties of the breath gate\<close>

lemma round_double_int:
  assumes "\<bar>n\<bar> < 2 ^ 53"
  shows "round_double (real_of_int n) = real_of_int n"
proof (cases "n = 0")
  case True
  then show ?thesis by (simp add: round_double_def)
next
  case False
  define e where "e = \<lfloor>log 2 \<bar>real_of_int n\<bar>\<rfloor>"
  have one: "1 \<le> \<bar>real_of_int n\<bar>" using False by (simp flip: of_int_abs)
  have "real_of_int \<bar>n\<bar> < real_of_int (2 ^ 53)" using assms by (simp only: of_int_less_iff)
  then have lt: "\<bar>real_of_int n\<bar> < 2 ^ 53" by simp
  have "0 \<le> log 2 \<bar>real_of_int n\<bar>" using one by simp
  then have e0: "0 \<le> e" unfolding e_def by simp
  have "log 2 \<bar>real_of_int n\<bar> < 53"
    using one lt by (simp add: log_less_iff powr_realpow [symmetric])
  then have e52: "e \<le> 52" unfolding e_def by (simp add: floor_le_iff)
  define k where "k = nat (52 - e)"
  have k: "real_of_int (e - 52) = - real k" using e52 by (simp add: k_def)
  have "2 powr real_of_int (e - 52) = 1 / 2 ^ k"
    unfolding k by (simp add: powr_minus powr_realpow inverse_eq_divide)
  then have p: "2 powr (real_of_int e - 52) = 1 / 2 ^ k" by simp
  have "rne (real_of_int n / (1 / 2 ^ k)) = rne (real_of_int (n * 2 ^ k))" by simp
  also have "\<dots> = n * 2 ^ k" by (rule rne_int)
  finally have r: "rne (real_of_int n / (1 / 2 ^ k)) = n * 2 ^ k" .
  have "round_double (real_of_int n) = real_of_int (rne (real_of_int n / (1 / 2 ^ k))) * (1 / 2 ^ k)"
    using False by (simp add: round_double_def Let_def e_def [symmetric] p)
  then show ?thesis unfolding r by simp
qed

lemma round_double_halves:
  "round_double (3/2) = 3/2" "round_double (9/2) = 9/2" "round_double (15/2) = 15/2"
  "round_double (27/2) = 27/2" "round_double (1/4) = 1/4" "round_double (3/4) = 3/4"
  "round_double (5/4) = 5/4" "round_double (9/4) = 9/4"
  using round_double_exact [of "3 * 2 ^ 51" 52] round_double_exact [of "9 * 2 ^ 49" 50]
    round_double_exact [of "15 * 2 ^ 49" 50] round_double_exact [of "27 * 2 ^ 48" 49]
    round_double_exact [of "2 ^ 52" 54] round_double_exact [of "3 * 2 ^ 51" 53]
    round_double_exact [of "5 * 2 ^ 50" 52] round_double_exact [of "9 * 2 ^ 49" 51]
  by simp_all

lemma round_double_tenths:
  "round_double (13/10) = 5854679515581645 / 2 ^ 52"
  "round_double (17/10) = 7656119366529843 / 2 ^ 52"
  "round_double (73/10) = 8219069319951155 / 2 ^ 50"
  "round_double (77/10) = 8669429282688205 / 2 ^ 50"
proof -
  have r: "rne (13/10 * 2 ^ 52) = 5854679515581645" by (rule rne_eval) simp_all
  have "round_double (13/10) = real_of_int (rne (13/10 * 2 ^ 52)) / 2 ^ 52"
    by (rule round_double_eval) simp_all
  then show "round_double (13/10) = 5854679515581645 / 2 ^ 52" unfolding r by simp
  have r: "rne (17/10 * 2 ^ 52) = 7656119366529843" by (rule rne_eval) simp_all
  have "round_double (17/10) = real_of_int (rne (17/10 * 2 ^ 52)) / 2 ^ 52"
    by (rule round_double_eval) simp_all
  then show "round_double (17/10) = 7656119366529843 / 2 ^ 52" unfolding r by simp
  have r: "rne (73/10 * 2 ^ 50) = 8219069319951155" by (rule rne_eval) simp_all
  have "round_double (73/10) = real_of_int (rne (73/10 * 2 ^ 50)) / 2 ^ 50"
    by (rule round_double_eval) simp_all
  then show "round_double (73/10) = 8219069319951155 / 2 ^ 50" unfolding r by simp
  have r: "rne (77/10 * 2 ^ 50) = 8669429282688205" by (rule rne_eval) simp_all
  have "round_double (77/10) = real_of_int (rne (77/10 * 2 ^ 50)) / 2 ^ 50"
    by (rule round_double_eval) simp_all
  then show "round_double (77/10) = 8669429282688205 / 2 ^ 50" unfolding r by simp
qed

lemma elapsed_anchor:
  "breathStartTime this = t0 \<Longrightarrow> \<bar>k\<bar> < 2 ^ 53 \<Longrightarrow>
     elapsed (t0 + k) this = round_double (real_of_int k / 1000)"
  by (simp add: elapsed_def round_double_int)

lemma js_rem_first_cycle: "0 \<le> x \<Longrightarrow> x < 6 \<Longrightarrow> js_rem x 6 = x"
proof -
  assume a: "0 \<le> x" "x < 6"
  have "\<lfloor>x / 6\<rfloor> = 0" using a by (simp add: floor_eq_iff)
  then show ?thesis using a by (simp add: js_rem_def js_trunc_def)
qed

lemma js_rem_second_cycle: "6 \<le> x \<Longrightarrow> x < 12 \<Longrightarrow> js_rem x 6 = x - 6"
proof -
  assume a: "6 \<le> x" "x < 12"
  have "\<lfloor>x / 6\<rfloor> = 1" using a by (simp add: floor_eq_iff)
  then show ?thesis using a by (simp add: js_rem_def js_trunc_def)
qed

lemma js_rem_third_cycle: "12 \<le> x \<Longrightarrow> x < 18 \<Longrightarrow> js_rem x 6 = x - 12"
proof -
  assume a: "12 \<le> x" "x < 18"
  have "\<lfloor>x / 6\<rfloor> = 2" using a by (simp add: floor_eq_iff)
  then show ?thesis using a by (simp add: js_rem_def js_trunc_def)
qed

lemma window_bounds:
  "129/100 < round_double (13/10)" "round_double (13/10) < 131/100"
  "169/100 < round_double (17/10)" "round_double (17/10) < 171/100"
  by (simp_all add: round_double_tenths)

lemma peak_1500:
  assumes "breathStartTime this = t0"
  shows "isPeakMoment (t0 + 1500) this" "currentCycle (t0 + 1500) this = 0"
  using window_bounds
  by (simp_all add: isPeakMoment_def phaseTime_def currentCycle_def cycleDuration_def
        elapsed_anchor [OF assms] js_rem_first_cycle round_double_halves)

lemma peak_7500:
  assumes "breathStartTime this = t0"
  shows "isPeakMoment (t0 + 7500) this" "currentCycle (t0 + 7500) this = 1"
  using window_bounds
  by (simp_all add: isPeakMoment_def phaseTime_def currentCycle_def cycleDuration_def
        elapsed_anchor [OF assms] js_rem_second_cycle round_double_halves floor_eq_iff)

lemma peak_13500:
  assumes "breathStartTime this = t0"
  shows "isPeakMoment (t0 + 13500) this" "currentCycle (t0 + 13500) this = 2"
  using window_bounds
  by (simp_all add: isPeakMoment_def phaseTime_def currentCycle_def cycleDuration_def
        elapsed_anchor [OF assms] js_rem_third_cycle round_double_halves floor_eq_iff)

lemma trough_4500:
  assumes "breathStartTime this = t0"
  shows "\<not> isPeakMoment (t0 + 4500) this" "phaseTime (t0 + 4500) this = 4.5"
  using window_bounds
  by (simp_all add: isPeakMoment_def phaseTime_def currentCycle_def cycleDuration_def
        elapsed_anchor [OF assms] js_rem_first_cycle round_double_halves)

lemma peak_1600:
  assumes "breathStartTime this = t0"
  shows "isPeakMoment (t0 + 1600) this" "currentCycle (t0 + 1600) this = 0"
proof -
  define p where "p = round_double (8/5)"
  have e: "elapsed (t0 + 1600) this = p"
    by (simp add: elapsed_anchor [OF assms] p_def)
  have p: "159/100 \<le> p" "p \<le> 161/100"
    using round_double_between [of "8/5" "8/5" "8/5"] by (simp_all add: p_def)
  then have ph: "phaseTime (t0 + 1600) this = p"
    by (simp add: phaseTime_def cycleDuration_def e js_rem_first_cycle)
  show "isPeakMoment (t0 + 1600) this"
    unfolding isPeakMoment_def ph using p window_bounds by simp
  have "1/5 * (1 - 1 / 2 ^ 53) \<le> round_double (p / 6)" "round_double (p / 6) \<le> 1/2 * (1 + 1 / 2 ^ 53)"
    using p round_double_between [of "1/5" "p / 6" "1/2"] by simp_all
  then have "0 \<le> round_double (p / 6)" "round_double (p / 6) < 1" by simp_all
  then show "currentCycle (t0 + 1600) this = 0"
    by (simp add: currentCycle_def cycleDuration_def e floor_eq_iff)
qed

lemma peak_13600:
  assumes "breathStartTime this = t0"
  shows "isPeakMoment (t0 + 13600) this" "currentCycle (t0 + 13600) this = 2"
proof -
  define p where "p = round_double (68/5)"
  have e: "elapsed (t0 + 13600) this = p"
    by (simp add: elapsed_anchor [OF assms] p_def)
  have p: "1359/100 \<le> p" "p \<le> 1361/100"
    using round_double_between [of "68/5" "68/5" "68/5"] by (simp_all add: p_def)
  then have ph: "phaseTime (t0 + 13600) this = p - 12"
    by (simp add: phaseTime_def cycleDuration_def e js_rem_third_cycle)
  show "isPeakMoment (t0 + 13600) this"
    unfolding isPeakMoment_def ph using p window_bounds by simp
  have "11/5 * (1 - 1 / 2 ^ 53) \<le> round_double (p / 6)" "round_double (p / 6) \<le> 5/2 * (1 + 1 / 2 ^ 53)"
    using p round_double_between [of "11/5" "p / 6" "5/2"] by simp_all
  then have "2 \<le> round_double (p / 6)" "round_double (p / 6) < 3" by simp_all
  then show "currentCycle (t0 + 13600) this = 2"
    by (simp add: currentCycle_def cycleDuration_def e floor_eq_iff)
qed

lemma window_edges:
  assumes "breathStartTime this = t0"
  shows "\<not> isPeakMoment (t0 + 7300) this" "\<not> isPeakMoment (t0 + 7700) this"
    "currentCycle (t0 + 7700) this = 1"
proof -
  have e: "elapsed (t0 + 7300) this = 8219069319951155 / 2 ^ 50"
    "elapsed (t0 + 7700) this = 8669429282688205 / 2 ^ 50"
    by (simp_all add: elapsed_anchor [OF assms] round_double_tenths)
  have ph: "phaseTime (t0 + 7300) this = 8219069319951155 / 2 ^ 50 - 6"
    "phaseTime (t0 + 7700) this = 8669429282688205 / 2 ^ 50 - 6"
    unfolding phaseTime_def cycleDuration_def e by (rule js_rem_second_cycle; simp)+
  show "\<not> isPeakMoment (t0 + 7300) this" "\<not> isPeakMoment (t0 + 7700) this"
    unfolding isPeakMoment_def ph by (simp_all add: round_double_tenths)
  define q :: real where "q = 8669429282688205 / 2 ^ 50 / 6"
  have "6/5 * (1 - 1 / 2 ^ 53) \<le> round_double q" "round_double q \<le> 3/2 * (1 + 1 / 2 ^ 53)"
    using round_double_between [of "6/5" q "3/2"] by (simp_all add: q_def)
  then have "1 \<le> round_double q" "round_double q < 2" by simp_all
  then have "\<lfloor>round_double q\<rfloor> = 1" by (simp add: floor_eq_iff)
  then show "currentCycle (t0 + 7700) this = 1"
    unfolding currentCycle_def cycleDuration_def e q_def .
qed

lemma checkBreathClick_anchor:
  "breathStartTime (snd (checkBreathClick now this)) = breathStartTime this"
  by (simp add: checkBreathClick_def Let_def)

lemma checkBreathClick_outside:
  "\<not> isPeakMoment now this \<Longrightarrow>
     fst (checkBreathClick now this) = False
     \<and> breathCounter (snd (checkBreathClick now this)) = 0
     \<and> triangleGlowActive (snd (checkBreathClick now this)) = False
     \<and> lastClickCycle (snd (checkBreathClick now this)) = -1"
  by (simp add: checkBreathClick_def Let_def)

lemma checkBreathClick_same_cycle:
  "isPeakMoment now this \<Longrightarrow> currentCycle now this = lastClickCycle this \<Longrightarrow>
     checkBreathClick now this = (False, this)"
  by (simp add: checkBreathClick_def)

lemma checkBreathClick_credit:
  assumes "isPeakMoment now this" "currentCycle now this \<noteq> lastClickCycle this"
  shows "fst (checkBreathClick now this) = (breathCounter this + 1 \<ge> 3)"
    and "breathCounter (snd (checkBreathClick now this))
           = (if breathCounter this + 1 \<ge> 3 then 0 else breathCounter this + 1)"
    and "lastClickCycle (snd (checkBreathClick now this))
           = (if breathCounter this + 1 \<ge> 3 then -1 else currentCycle now this)"
    and "triangleGlowActive (snd (checkBreathClick now this))"
  using assms by (simp_all add: checkBreathClick_def Let_def)

lemma first_peak_click:
  fixes this :: triangle_object
  assumes "breathStartTime this = t0" "breathCounter this = 0" "lastClickCycle this = -1"
  defines "r \<equiv> checkBreathClick (t0 + 1500) this"
  shows "fst r = False" "breathCounter (snd r) = 1" "lastClickCycle (snd r) = 0"
    "triangleGlowActive (snd r)" "breathStartTime (snd r) = t0"
  using peak_1500 [OF assms(1)] checkBreathClick_credit [of "t0 + 1500" this] assms(2,3)
  by (simp_all add: r_def checkBreathClick_anchor assms(1))

lemma fresh_fields:
  "breathStartTime (triangle_constructor\<lparr> breathStartTime := t0 \<rparr>) = t0"
  "breathCounter (triangle_constructor\<lparr> breathStartTime := t0 \<rparr>) = 0"
  "lastClickCycle (triangle_constructor\<lparr> breathStartTime := t0 \<rparr>) = -1"
  "triangle_constructor\<lparr> breathStartTime := 0 \<rparr> = triangle_constructor"
  by (simp_all add: triangle_constructor_def)

text \<open>
  Claim C3. With the cycle anchored at \<open>t0\<close> and a fresh counter, clicks 1.5 s, 7.5 s
  and 13.5 s after the anchor return \<open>false\<close>, \<open>false\<close>, \<open>true\<close> and leave the counter
  at 1, 2 and 0. A click 4.5 s after the anchor has phase time 4.5, outside the window
  from 1.3 to 1.7, returns \<open>false\<close> and leaves the counter at 0, whatever the state.
  Clicks 1.5 s and 1.6 s after the anchor leave the counter at 1 and 1: the second one
  is not credited.
\<close>

theorem breath_gate_three_peaks:
  "map (\<lambda>(r, s). (r, breathCounter s))
     (breathClicks [t0 + 1500, t0 + 7500, t0 + 13500] (triangle_constructor\<lparr> breathStartTime := t0 \<rparr>))
     = [(False, 1), (False, 2), (True, 0)]
   \<and> phaseTime (t0 + 4500) (this\<lparr> breathStartTime := t0 \<rparr>) = 4.5
   \<and> \<not> isPeakMoment (t0 + 4500) (this\<lparr> breathStartTime := t0 \<rparr>)
   \<and> fst (checkBreathClick (t0 + 4500) (this\<lparr> breathStartTime := t0 \<rparr>)) = False
   \<and> breathCounter (snd (checkBreathClick (t0 + 4500) (this\<lparr> breathStartTime := t0 \<rparr>))) = 0
   \<and> map (\<lambda>(r, s). (r, breathCounter s))
     (breathClicks [t0 + 1500, t0 + 1600] (triangle_constructor\<lparr> breathStartTime := t0 \<rparr>))
     = [(False, 1), (False, 1)]"
proof -
  define s0 where "s0 = triangle_constructor\<lparr> breathStartTime := t0 \<rparr>"
  define r1 where "r1 = checkBreathClick (t0 + 1500) s0"
  define r2 where "r2 = checkBreathClick (t0 + 7500) (snd r1)"
  define r3 where "r3 = checkBreathClick (t0 + 13500) (snd r2)"
  define d2 where "d2 = checkBreathClick (t0 + 1600) (snd r1)"
  have f1: "fst r1 = False" "breathCounter (snd r1) = 1" "lastClickCycle (snd r1) = 0"
    "breathStartTime (snd r1) = t0"
    unfolding r1_def s0_def using first_peak_click [OF fresh_fields(1,2,3)] by simp_all
  have f2: "fst r2 = False" "breathCounter (snd r2) = 2" "lastClickCycle (snd r2) = 1"
    "breathStartTime (snd r2) = t0"
    using peak_7500 [OF f1(4)] checkBreathClick_credit [of "t0 + 7500" "snd r1"] f1
    by (simp_all add: r2_def checkBreathClick_anchor)
  have f3: "fst r3 = True" "breathCounter (snd r3) = 0"
    using peak_13500 [OF f2(4)] checkBreathClick_credit [of "t0 + 13500" "snd r2"] f2
    by (simp_all add: r3_def)
  have "d2 = (False, snd r1)"
    unfolding d2_def using peak_1600 [OF f1(4)] f1(3)
    by (intro checkBreathClick_same_cycle) simp_all
  then have g2: "fst d2 = False" "breathCounter (snd d2) = 1"
    using f1 by simp_all
  have "breathClicks [t0 + 1500, t0 + 7500, t0 + 13500] s0 = [r1, r2, r3]"
    by (simp add: Let_def r1_def r2_def r3_def)
  then have first: "map (\<lambda>(r, s). (r, breathCounter s))
     (breathClicks [t0 + 1500, t0 + 7500, t0 + 13500] s0) = [(False, 1), (False, 2), (True, 0)]"
    using f1 f2 f3 by (simp add: case_prod_unfold)
  have "breathClicks [t0 + 1500, t0 + 1600] s0 = [r1, d2]"
    by (simp add: Let_def r1_def d2_def)
  then have third: "map (\<lambda>(r, s). (r, breathCounter s))
     (breathClicks [t0 + 1500, t0 + 1600] s0) = [(False, 1), (False, 1)]"
    using f1 g2 by (simp add: case_prod_unfold)
  let ?t = "this\<lparr> breathStartTime := t0 \<rparr>"
  have at: "breathStartTime ?t = t0" by simp
  have second: "phaseTime (t0 + 4500) ?t = 4.5" "\<not> isPeakMoment (t0 + 4500) ?t"
     "fst (checkBreathClick (t0 + 4500) ?t) = False"
     "breathCounter (snd (checkBreathClick (t0 + 4500) ?t)) = 0"
    using trough_4500 [OF at] checkBreathClick_outside [of "t0 + 4500" ?t] by simp_all
  show ?thesis using first second third unfolding s0_def by blast
qed

lemma after_first_peak:
  fixes s1 :: triangle_object
  defines "s1 \<equiv> snd (checkBreathClick 1500 triangle_constructor)"
  shows "breathStartTime s1 = 0" "breathCounter s1 = 1" "lastClickCycle s1 = 0"
    "triangleGlowActive s1" "isPeakMoment 1600 s1" "currentCycle 1600 s1 = lastClickCycle s1"
    "\<not> isPeakMoment 4500 s1"
proof -
  have f: "breathStartTime s1 = 0" "breathCounter s1 = 1" "lastClickCycle s1 = 0"
    "triangleGlowActive s1"
    using first_peak_click [OF fresh_fields(1,2,3), of 0]
    by (simp_all add: s1_def fresh_fields(4))
  then show "breathStartTime s1 = 0" "breathCounter s1 = 1" "lastClickCycle s1 = 0"
    "triangleGlowActive s1" by blast+
  show "isPeakMoment 1600 s1" "currentCycle 1600 s1 = lastClickCycle s1" "\<not> isPeakMoment 4500 s1"
    using peak_1600 [OF f(1)] trough_4500 [OF f(1)] f(3) by simp_all
qed

text \<open>
  Claim C4, as stated, fails for a click in the peak window of a cycle already
  credited: after a credited click at 1.5 s, a click at 1.6 s is in the window and in
  the same cycle, and it leaves the counter at 1 and the glow active.
\<close>

theorem breath_gate_same_cycle_keeps_counter:
  "isPeakMoment 1600 (snd (checkBreathClick 1500 triangle_constructor))
   \<and> currentCycle 1600 (snd (checkBreathClick 1500 triangle_constructor))
       = lastClickCycle (snd (checkBreathClick 1500 triangle_constructor))
   \<and> breathCounter (snd (checkBreathClick 1600 (snd (checkBreathClick 1500 triangle_constructor)))) = 1
   \<and> triangleGlowActive (snd (checkBreathClick 1600 (snd (checkBreathClick 1500 triangle_constructor))))
   \<and> \<not> (breathCounter (snd (checkBreathClick 1600 (snd (checkBreathClick 1500 triangle_constructor)))) = 0
        \<and> \<not> triangleGlowActive (snd (checkBreathClick 1600 (snd (checkBreathClick 1500 triangle_constructor)))))"
proof -
  let ?s1 = "snd (checkBreathClick 1500 triangle_constructor)"
  note s1 = after_first_peak
  have d2: "checkBreathClick 1600 ?s1 = (False, ?s1)"
    using s1(5,6) by (rule checkBreathClick_same_cycle)
  have "breathCounter (snd (checkBreathClick 1600 ?s1)) = 1"
       "triangleGlowActive (snd (checkBreathClick 1600 ?s1))"
    unfolding d2 using s1(2,4) by simp_all
  then show ?thesis using s1(5,6) by simp
qed

text \<open>
  At 7.3 s and 7.7 s after the anchor the phase time, computed in doubles, is
  \<open>1.2999999999999998\<close> and \<open>1.7000000000000002\<close>, just outside the window: a click at
  7.7 s after a credited click at 7.5 s counts as wrong timing.
\<close>

lemma after_peak_7500:
  fixes s1 :: triangle_object
  defines "s1 \<equiv> snd (checkBreathClick 7500 triangle_constructor)"
  shows "breathStartTime s1 = 0" "breathCounter s1 = 1" "lastClickCycle s1 = 1"
    "triangleGlowActive s1" "\<not> isPeakMoment 7700 s1" "currentCycle 7700 s1 = lastClickCycle s1"
proof -
  have a: "breathStartTime triangle_constructor = 0" "breathCounter triangle_constructor = 0"
    "lastClickCycle triangle_constructor = -1"
    by (simp_all add: triangle_constructor_def)
  have f: "breathStartTime s1 = 0" "breathCounter s1 = 1" "lastClickCycle s1 = 1"
    "triangleGlowActive s1"
    using peak_7500 [OF a(1)] checkBreathClick_credit [of 7500 triangle_constructor] a
    by (simp_all add: s1_def checkBreathClick_anchor)
  then show "breathStartTime s1 = 0" "breathCounter s1 = 1" "lastClickCycle s1 = 1"
    "triangleGlowActive s1" by blast+
  show "\<not> isPeakMoment 7700 s1" "currentCycle 7700 s1 = lastClickCycle s1"
    using window_edges [OF f(1)] f(3) by simp_all
qed

lemma after_trinity:
  "map (\<lambda>(r, s). (r, breathCounter s, lastClickCycle s))
     (breathClicks [1500, 7500, 13500, 13600] triangle_constructor)
     = [(False, 1, 0), (False, 2, 1), (True, 0, -1), (False, 1, 2)]"
proof -
  define r1 where "r1 = checkBreathClick 1500 triangle_constructor"
  define r2 where "r2 = checkBreathClick 7500 (snd r1)"
  define r3 where "r3 = checkBreathClick 13500 (snd r2)"
  define r4 where "r4 = checkBreathClick 13600 (snd r3)"
  have f1: "fst r1 = False" "breathCounter (snd r1) = 1" "lastClickCycle (snd r1) = 0"
    "breathStartTime (snd r1) = 0"
    unfolding r1_def using first_peak_click [OF fresh_fields(1,2,3), of 0]
    by (simp_all add: fresh_fields(4))
  have f2: "fst r2 = False" "breathCounter (snd r2) = 2" "lastClickCycle (snd r2) = 1"
    "breathStartTime (snd r2) = 0"
    using peak_7500 [OF f1(4)] checkBreathClick_credit [of 7500 "snd r1"] f1
    by (simp_all add: r2_def checkBreathClick_anchor)
  have f3: "fst r3 = True" "breathCounter (snd r3) = 0" "lastClickCycle (snd r3) = -1"
    "breathStartTime (snd r3) = 0"
    using peak_13500 [OF f2(4)] checkBreathClick_credit [of 13500 "snd r2"] f2
    by (simp_all add: r3_def checkBreathClick_anchor)
  have f4: "fst r4 = False" "breathCounter (snd r4) = 1" "lastClickCycle (snd r4) = 2"
    using peak_13600 [OF f3(4)] checkBreathClick_credit [of 13600 "snd r3"] f3
    by (simp_all add: r4_def)
  have "breathClicks [1500, 7500, 13500, 13600] triangle_constructor = [r1, r2, r3, r4]"
    by (simp add: Let_def r1_def r2_def r3_def r4_def)
  then show ?thesis using f1 f2 f3 f4 by (simp add: case_prod_unfold)
qed

text \<open>
  Claim C4, amended. A click outside the peak window returns \<open>false\<close>, sets the
  counter to 0, leaves the glow inactive and sets \<open>lastClickCycle\<close> to -1. A click in
  the peak window whose cycle is the value of \<open>lastClickCycle\<close> returns \<open>false\<close> and
  changes nothing: counter and glow stay as they are. A click in the peak window
  whose cycle is not the value of \<open>lastClickCycle\<close> is credited: the glow is active
  afterwards, and either the counter is one more and \<open>lastClickCycle\<close> is the cycle of
  the click, or, at the third credit, the call returns \<open>true\<close>, the counter is 0 and
  \<open>lastClickCycle\<close> is -1. So a cycle that was credited is credited again when the
  credit was the third one: after clicks at 1.5 s, 7.5 s and 13.5 s, a click at 13.6 s,
  in the cycle of the third, brings the counter to 1.
\<close>

theorem breath_gate_failure_branches:
  "(\<not> isPeakMoment now this \<longrightarrow>
      fst (checkBreathClick now this) = False
      \<and> breathCounter (snd (checkBreathClick now this)) = 0
      \<and> triangleGlowActive (snd (checkBreathClick now this)) = False
      \<and> lastClickCycle (snd (checkBreathClick now this)) = -1)
   \<and> (isPeakMoment now this \<and> currentCycle now this = lastClickCycle this \<longrightarrow>
      checkBreathClick now this = (False, this))
   \<and> (isPeakMoment now this \<and> currentCycle now this \<noteq> lastClickCycle this \<longrightarrow>
      fst (checkBreathClick now this) = (breathCounter this + 1 \<ge> 3)
      \<and> breathCounter (snd (checkBreathClick now this))
          = (if breathCounter this + 1 \<ge> 3 then 0 else breathCounter this + 1)
      \<and> lastClickCycle (snd (checkBreathClick now this))
          = (if breathCounter this + 1 \<ge> 3 then -1 else currentCycle now this)
      \<and> triangleGlowActive (snd (checkBreathClick now this)))
   \<and> map (\<lambda>(r, s). (r, breathCounter s, lastClickCycle s))
        (breathClicks [1500, 7500, 13500, 13600] triangle_constructor)
        = [(False, 1, 0), (False, 2, 1), (True, 0, -1), (False, 1, 2)]"
  using checkBreathClick_outside [of now this] checkBreathClick_same_cycle [of now this]
    checkBreathClick_credit [of now this] after_trinity
  by blast

theorem breath_gate_failure_branches_witness:
  "\<not> isPeakMoment 7700 (snd (checkBreathClick 7500 triangle_constructor))
   \<and> currentCycle 7700 (snd (checkBreathClick 7500 triangle_constructor))
       = lastClickCycle (snd (checkBreathClick 7500 triangle_constructor))
   \<and> breathCounter (snd (checkBreathClick 7500 triangle_constructor)) = 1
   \<and> triangleGlowActive (snd (checkBreathClick 7500 triangle_constructor))
   \<and> fst (checkBreathClick 7700 (snd (checkBreathClick 7500 triangle_constructor))) = False
   \<and> breathCounter (snd (checkBreathClick 7700 (snd (checkBreathClick 7500 triangle_constructor)))) = 0
   \<and> triangleGlowActive (snd (checkBreathClick 7700 (snd (checkBreathClick 7500 triangle_constructor)))) = False
   \<and> isPeakMoment 1600 (snd (checkBreathClick 1500 triangle_constructor))
   \<and> currentCycle 1600 (snd (checkBreathClick 1500 triangle_constructor))
       = lastClickCycle (snd (checkBreathClick 1500 triangle_constructor))
   \<and> checkBreathClick 1600 (snd (checkBreathClick 1500 triangle_constructor))
       = (False, snd (checkBreathClick 1500 triangle_constructor))
   \<and> isPeakMoment 7500 (snd (checkBreathClick 1500 triangle_constructor))
   \<and> currentCycle 7500 (snd (checkBreathClick 1500 triangle_constructor))
       \<noteq> lastClickCycle (snd (checkBreathClick 1500 triangle_constructor))
   \<and> breathCounter (snd (checkBreathClick 7500 (snd (checkBreathClick 1500 triangle_constructor)))) = 2"
proof -
  let ?s1 = "snd (checkBreathClick 1500 triangle_constructor)"
  let ?s2 = "snd (checkBreathClick 7500 triangle_constructor)"
  note s1 = after_first_peak
  note s2 = after_peak_7500
  have p: "isPeakMoment 7500 ?s1" "currentCycle 7500 ?s1 \<noteq> lastClickCycle ?s1"
    using peak_7500 [of ?s1 0] s1(1,3) by simp_all
  have "breathCounter (snd (checkBreathClick 7500 ?s1)) = 2"
    using breath_gate_failure_branches [of 7500 ?s1] p s1(2) by simp
  moreover have "fst (checkBreathClick 7700 ?s2) = False
      \<and> breathCounter (snd (checkBreathClick 7700 ?s2)) = 0
      \<and> triangleGlowActive (snd (checkBreathClick 7700 ?s2)) = False"
    using breath_gate_failure_branches [of 7700 ?s2] s2(5) by blast
  moreover have "checkBreathClick 1600 ?s1 = (False, ?s1)"
    using breath_gate_failure_branches [of 1600 ?s1] s1(5,6) by blast
  ultimately show ?thesis using p s1(5,6) s2(2,4,5,6) by blast
qed

section \<open>Properties of the store\<close>

lemma reducer_case_keeps_unlocks:
  "t \<noteq> RESET_STATE \<Longrightarrow> reducer_case loaded now state a t = Inr state' \<Longrightarrow>
     (cubeSecretUnlocked state \<longrightarrow> cubeSecretUnlocked state')
     \<and> (saturnSecretUnlocked' state \<longrightarrow> saturnSecretUnlocked' state')
     \<and> (trinitySecretUnlocked state \<longrightarrow> trinitySecretUnlocked state')"
  by (cases t) (auto simp add: stamp_def split: sum.splits)

text \<open>
  Claim C7. For every action whose type is not \<open>RESET_STATE\<close>, whenever the reducer
  returns a state, each of the three unlock flags that is true before is true after.
  (When the reducer throws, the store keeps its state.)
\<close>

theorem reducer_unlocks_monotonic:
  "atype a \<noteq> RESET_STATE \<Longrightarrow> reducer loaded now state a = Inr state' \<Longrightarrow>
     (cubeSecretUnlocked state \<longrightarrow> cubeSecretUnlocked state')
     \<and> (saturnSecretUnlocked' state \<longrightarrow> saturnSecretUnlocked' state')
     \<and> (trinitySecretUnlocked state \<longrightarrow> trinitySecretUnlocked state')"
  unfolding reducer_def by (rule reducer_case_keeps_unlocks)

theorem reducer_unlocks_monotonic_witness:
  "atype actions_showSaturn \<noteq> RESET_STATE
   \<and> reducer 0 7 ((initialState 0)\<lparr> cubeSecretUnlocked := True, saturnSecretUnlocked' := True,
                                       trinitySecretUnlocked := True \<rparr>) actions_showSaturn
       = Inr ((initialState 0)\<lparr> cubeSecretUnlocked := True, saturnSecretUnlocked' := True,
                 trinitySecretUnlocked := True, showCube := False, showSaturn := True,
                 lastAction := Some SHOW_SATURN, timestamp := 7 \<rparr>)
   \<and> cubeSecretUnlocked ((initialState 0)\<lparr> cubeSecretUnlocked := True, saturnSecretUnlocked' := True,
                                       trinitySecretUnlocked := True \<rparr>)
   \<and> cubeSecretUnlocked ((initialState 0)\<lparr> cubeSecretUnlocked := True, saturnSecretUnlocked' := True,
                 trinitySecretUnlocked := True, showCube := False, showSaturn := True,
                 lastAction := Some SHOW_SATURN, timestamp := 7 \<rparr>)"
proof -
  let ?s = "(initialState 0)\<lparr> cubeSecretUnlocked := True, saturnSecretUnlocked' := True,
                                       trinitySecretUnlocked := True \<rparr>"
  let ?s' = "(initialState 0)\<lparr> cubeSecretUnlocked := True, saturnSecretUnlocked' := True,
                 trinitySecretUnlocked := True, showCube := False, showSaturn := True,
                 lastAction := Some SHOW_SATURN, timestamp := 7 \<rparr>"
  have t: "atype actions_showSaturn \<noteq> RESET_STATE" by (simp add: actions_showSaturn_def)
  have r: "reducer 0 7 ?s actions_showSaturn = Inr ?s'"
    by (simp add: reducer_def actions_showSaturn_def stamp_def initialState_def)
  have c: "cubeSecretUnlocked ?s" by simp
  from reducer_unlocks_monotonic [OF t r] c have "cubeSecretUnlocked ?s'" by blast
  with t r c show ?thesis by blast
qed

text \<open>
  Claim C9. With \<open>magic_word=abracadabra\<close> in the URL, \<open>onMount\<close> does not throw and
  leaves the store as it was except for the three unlock flags, now true, the status
  \<open>ready\<close>, the loading flag \<open>false\<close> and the bookkeeping of the last action; in
  particular from \<open>initialState\<close>. It works on the store alone: the gate objects are
  not among its arguments.
\<close>

theorem magic_word_unlocks_all:
  "onMount loaded (Some ''abracadabra'') clk this =
     Inr (this\<lparr> mounted := True, magicMode := True,
               store := (store this)\<lparr> cubeSecretUnlocked := True, saturnSecretUnlocked' := True,
                                       trinitySecretUnlocked := True, status := JStr ''ready'',
                                       isLoading := JBool False, lastAction := Some SET_LOADING,
                                       timestamp := clk 4 \<rparr> \<rparr>)
   \<and> (\<exists>this'. onMount loaded (Some ''abracadabra'') clk (this\<lparr> store := initialState loaded \<rparr>) = Inr this'
         \<and> cubeSecretUnlocked (store this') \<and> saturnSecretUnlocked' (store this')
         \<and> trinitySecretUnlocked (store this'))"
  by (simp add: onMount_def dispatch_def Date_now_def reducer_def stamp_def Let_def
        unlockCubeSecret_def unlockSaturnSecret_def unlockTrinitySecret_def setStatus_def setLoading_def
        numeral_eq_Suc)

section \<open>Properties of the two-second hold\<close>

lemma advanced_0: "advanced clk 0 = clk"
  by (simp add: advanced_def)

lemma advanced_advanced: "advanced (advanced clk a) b = advanced clk (a + b)"
proof
  fix n
  have "n + b + a = n + (a + b)" by simp
  then show "advanced (advanced clk a) b n = advanced clk (a + b) n"
    unfolding advanced_def by (rule arg_cong)
qed

lemma read_within_mono: "read_within clk a t \<Longrightarrow> a \<le> b \<Longrightarrow> read_within clk b t"
proof -
  assume "read_within clk a t" "a \<le> b"
  then obtain n where "n < a" "clk n = t" "a \<le> b" unfolding read_within_def by blast
  then have "n < b" "clk n = t" by simp_all
  then show ?thesis unfolding read_within_def by blast
qed

lemma read_within_advanced: "read_within (advanced clk a) b t \<Longrightarrow> read_within clk (a + b) t"
proof -
  assume "read_within (advanced clk a) b t"
  then obtain n where n: "n < b" "clk (n + a) = t"
    unfolding read_within_def advanced_def by blast
  have "n + a < a + b" using n(1) by simp
  with n(2) show ?thesis unfolding read_within_def by blast
qed

lemma Date_now_cases:
  obtains now where "Date_now clk = (now, advanced clk 1)" "read_within clk 1 now"
proof
  show "Date_now clk = (clk 0, advanced clk 1)" by (simp add: Date_now_def advanced_def)
  have "(0::nat) < 1" "clk 0 = clk 0" by simp_all
  then show "read_within clk 1 (clk 0)" unfolding read_within_def by blast
qed

lemma two_seconds: "(real_of_int d / 1000 \<ge> 2.0) = (d \<ge> 2000)"
  by (simp add: field_simps)

lemma edge_body_hot:
  assumes hot: "strength > 0.995"
    and eb: "edge_body strength ff (clk, view) = ((clk', view'), ds, m)"
  shows "\<exists>k\<le>2. clk' = advanced clk k
    \<and> ((yellowEdgeStartTime view' = yellowEdgeStartTime view \<and> yellowEdgeStartTime view \<noteq> 0)
         \<or> read_within clk k (yellowEdgeStartTime view'))
    \<and> (\<forall>t\<in>set ds. read_within clk k t \<and> t - yellowEdgeStartTime view' \<ge> 2000)"
proof (cases "yellowEdgeStartTime view = 0")
  case True
  obtain s where d1: "Date_now clk = (s, advanced clk 1)" "read_within clk 1 s"
    by (rule Date_now_cases)
  obtain n where d2: "Date_now (advanced clk 1) = (n, advanced (advanced clk 1) 1)"
    "read_within (advanced clk 1) 1 n"
    by (rule Date_now_cases)
  from eb hot True d1(1) d2(1) have res: "clk' = advanced (advanced clk 1) 1"
    "yellowEdgeStartTime view' = s" "ds = (if n - s \<ge> 2000 then [n] else [])"
    by (auto simp add: edge_body_def Let_def two_seconds)
  have "(1::nat) + 1 = 2" by simp
  then have c: "clk' = advanced clk 2" unfolding res(1) advanced_advanced by (simp only:)
  have s: "read_within clk 2 s" using d1(2) by (rule read_within_mono) simp
  have n: "read_within clk 2 n"
    using read_within_advanced [OF d2(2)] by (simp add: numeral_2_eq_2)
  have "(2::nat) \<le> 2" by simp
  moreover have "clk' = advanced clk 2
    \<and> ((yellowEdgeStartTime view' = yellowEdgeStartTime view \<and> yellowEdgeStartTime view \<noteq> 0)
         \<or> read_within clk 2 (yellowEdgeStartTime view'))
    \<and> (\<forall>t\<in>set ds. read_within clk 2 t \<and> t - yellowEdgeStartTime view' \<ge> 2000)"
    using c s n res(2,3) by simp
  ultimately show ?thesis by blast
next
  case False
  obtain n where d2: "Date_now clk = (n, advanced clk 1)" "read_within clk 1 n"
    by (rule Date_now_cases)
  from eb hot False d2(1) have res: "clk' = advanced clk 1"
    "yellowEdgeStartTime view' = yellowEdgeStartTime view"
    "ds = (if n - yellowEdgeStartTime view \<ge> 2000 then [n] else [])"
    by (auto simp add: edge_body_def Let_def two_seconds)
  have "(1::nat) \<le> 2" by simp
  moreover have "clk' = advanced clk 1
    \<and> ((yellowEdgeStartTime view' = yellowEdgeStartTime view \<and> yellowEdgeStartTime view \<noteq> 0)
         \<or> read_within clk 1 (yellowEdgeStartTime view'))
    \<and> (\<forall>t\<in>set ds. read_within clk 1 t \<and> t - yellowEdgeStartTime view' \<ge> 2000)"
    using res d2(2) False by simp
  ultimately show ?thesis by blast
qed

lemma edge_body_cold:
  assumes "\<not> strength > 0.995"
  shows "yellowEdgeStartTime (snd (fst (edge_body strength ff cv))) = 0"
    and "yellowEdgeDuration (snd (fst (edge_body strength ff cv))) = 0"
    and "fst (snd (edge_body strength ff cv)) = []"
  using assms by (simp_all add: edge_body_def Let_def)

lemma held_since_step:
  assumes "held_since start1 (advanced clk a) b t"
    and "(start1 = start \<and> start \<noteq> 0) \<or> read_within clk a start1 \<or> start1 = 0"
  shows "held_since start clk (a + b) t"
proof -
  from assms(1) obtain x where x:
    "(x = start1 \<and> x \<noteq> 0) \<or> read_within (advanced clk a) b x" "t - x \<ge> 2000"
    unfolding held_since_def by blast
  have "(x = start \<and> x \<noteq> 0) \<or> read_within clk (a + b) x"
  proof (cases "read_within (advanced clk a) b x")
    case True
    then show ?thesis using read_within_advanced by blast
  next
    case False
    with x(1) have x1: "x = start1" "x \<noteq> 0" by simp_all
    with assms(2) consider "x = start" | "read_within clk a x" by blast
    then show ?thesis
    proof cases
      case 1
      with x1(2) show ?thesis by simp
    next
      case 2
      then have "read_within clk (a + b) x" by (rule read_within_mono) simp
      then show ?thesis by simp
    qed
  qed
  with x(2) show ?thesis unfolding held_since_def by blast
qed

lemma forEach_edge_hot:
  assumes hot: "strength > 0.995"
  shows "forEach_edge strength es (clk, view) = ((clk', view'), ds, ms) \<Longrightarrow>
    \<exists>k\<le>2 * length es. clk' = advanced clk k
    \<and> (yellowEdgeStartTime view' = yellowEdgeStartTime view
        \<or> read_within clk k (yellowEdgeStartTime view'))
    \<and> (\<forall>t\<in>set ds. read_within clk k t \<and> held_since (yellowEdgeStartTime view) clk k t)"
proof (induction es arbitrary: clk view clk' view' ds ms)
  case Nil
  then show ?case by (simp add: advanced_0)
next
  case (Cons ff es)
  define rb where "rb = edge_body strength ff (clk, view)"
  define clk1 where "clk1 = fst (fst rb)"
  define view1 where "view1 = snd (fst rb)"
  define ds1 where "ds1 = fst (snd rb)"
  define m where "m = snd (snd rb)"
  define rf where "rf = forEach_edge strength es (clk1, view1)"
  define clk2 where "clk2 = fst (fst rf)"
  define view2 where "view2 = snd (fst rf)"
  define ds2 where "ds2 = fst (snd rf)"
  define ms2 where "ms2 = snd (snd rf)"
  have e1: "edge_body strength ff (clk, view) = ((clk1, view1), ds1, m)"
    unfolding clk1_def view1_def ds1_def m_def rb_def by simp
  have e2: "forEach_edge strength es (clk1, view1) = ((clk2, view2), ds2, ms2)"
    unfolding clk2_def view2_def ds2_def ms2_def rf_def by simp
  have "forEach_edge strength (ff # es) (clk, view) = ((clk2, view2), ds1 @ ds2, m # ms2)"
    by (simp add: e1 e2)
  with Cons.prems have res: "clk' = clk2" "view' = view2" "ds = ds1 @ ds2"
    by simp_all
  from edge_body_hot [OF hot e1] obtain a where a: "a \<le> 2" "clk1 = advanced clk a"
    "(yellowEdgeStartTime view1 = yellowEdgeStartTime view \<and> yellowEdgeStartTime view \<noteq> 0)
       \<or> read_within clk a (yellowEdgeStartTime view1)"
    "\<forall>t\<in>set ds1. read_within clk a t \<and> t - yellowEdgeStartTime view1 \<ge> 2000"
    by blast
  from Cons.IH [OF e2] obtain b where b: "b \<le> 2 * length es" "clk2 = advanced clk1 b"
    "yellowEdgeStartTime view2 = yellowEdgeStartTime view1
       \<or> read_within clk1 b (yellowEdgeStartTime view2)"
    "\<forall>t\<in>set ds2. read_within clk1 b t \<and> held_since (yellowEdgeStartTime view1) clk1 b t"
    by blast
  have bound: "a + b \<le> 2 * length (ff # es)" using a(1) b(1) by simp
  have clock: "clk' = advanced clk (a + b)"
    unfolding res(1) b(2) a(2) by (rule advanced_advanced)
  have up: "read_within clk a t \<Longrightarrow> read_within clk (a + b) t" for t
    using read_within_mono [of clk a t "a + b"] by simp
  have late: "read_within clk1 b t \<Longrightarrow> read_within clk (a + b) t" for t
    unfolding a(2) by (rule read_within_advanced)
  have start: "yellowEdgeStartTime view' = yellowEdgeStartTime view
               \<or> read_within clk (a + b) (yellowEdgeStartTime view')"
    unfolding res(2) using a(3) b(3) up late by metis
  have fired: "\<forall>t\<in>set ds. read_within clk (a + b) t
                 \<and> held_since (yellowEdgeStartTime view) clk (a + b) t"
  proof
    fix t assume "t \<in> set ds"
    then consider "t \<in> set ds1" | "t \<in> set ds2" using res(3) by auto
    then show "read_within clk (a + b) t \<and> held_since (yellowEdgeStartTime view) clk (a + b) t"
    proof cases
      case 1
      with a(4) have t: "read_within clk a t" "t - yellowEdgeStartTime view1 \<ge> 2000" by simp_all
      from a(3) have "(yellowEdgeStartTime view1 = yellowEdgeStartTime view
                         \<and> yellowEdgeStartTime view1 \<noteq> 0)
                      \<or> read_within clk (a + b) (yellowEdgeStartTime view1)"
        using up by metis
      with t(2) have "held_since (yellowEdgeStartTime view) clk (a + b) t"
        unfolding held_since_def by blast
      with up [OF t(1)] show ?thesis by simp
    next
      case 2
      with b(4) have t: "read_within clk1 b t" "held_since (yellowEdgeStartTime view1) clk1 b t"
        by simp_all
      from a(3) have "(yellowEdgeStartTime view1 = yellowEdgeStartTime view
                         \<and> yellowEdgeStartTime view \<noteq> 0)
                      \<or> read_within clk a (yellowEdgeStartTime view1)
                      \<or> yellowEdgeStartTime view1 = 0"
        by blast
      with t(2) have "held_since (yellowEdgeStartTime view) clk (a + b) t"
        unfolding a(2) by (rule held_since_step)
      with late [OF t(1)] show ?thesis by simp
    qed
  qed
  from bound clock start fired show ?case by blast
qed

lemma forEach_edge_cold:
  assumes cold: "\<not> strength > 0.995"
  shows "yellowEdgeStartTime (snd cv) = 0 \<Longrightarrow> yellowEdgeDuration (snd cv) = 0 \<Longrightarrow>
    yellowEdgeStartTime (snd (fst (forEach_edge strength es cv))) = 0
    \<and> yellowEdgeDuration (snd (fst (forEach_edge strength es cv))) = 0
    \<and> fst (snd (forEach_edge strength es cv)) = []"
proof (induction es arbitrary: cv)
  case Nil
  then show ?case by simp
next
  case (Cons ff es)
  note b = edge_body_cold [OF cold, of ff cv]
  from Cons.IH [OF b(1,2)] b(3) show ?case
    by (simp add: case_prod_unfold Let_def)
qed

lemma updateCubeAppearance_cold:
  assumes "strength \<le> 0.995"
  shows "yellowEdgeStartTime (fst (updateCubeAppearance True u strength edges clk view)) = 0"
    and "yellowEdgeDuration (fst (updateCubeAppearance True u strength edges clk view)) = 0"
    and "fst (snd (updateCubeAppearance True u strength edges clk view)) = []"
proof -
  have cold: "\<not> strength > 0.995" using assms by simp
  have "yellowEdgeStartTime (fst (updateCubeAppearance True u strength edges clk view)) = 0
    \<and> yellowEdgeDuration (fst (updateCubeAppearance True u strength edges clk view)) = 0
    \<and> fst (snd (updateCubeAppearance True u strength edges clk view)) = []"
    using cold
    by (simp add: updateCubeAppearance_def Let_def case_prod_unfold forEach_edge_cold)
  then show "yellowEdgeStartTime (fst (updateCubeAppearance True u strength edges clk view)) = 0"
    and "yellowEdgeDuration (fst (updateCubeAppearance True u strength edges clk view)) = 0"
    and "fst (snd (updateCubeAppearance True u strength edges clk view)) = []"
    by blast+
qed

lemma updateCubeAppearance_top:
  assumes hot: "strength > 0.995"
  obtains start1 k dtop view2 where
    "updateCubeAppearance True u strength edges clk view =
       (let r = forEach_edge strength (map fst edges) (advanced clk k, view2)
        in (snd (fst r), dtop @ fst (snd r), snd (snd r)))"
    "yellowEdgeStartTime view2 = start1"
    "k \<le> 2"
    "start1 = yellowEdgeStartTime view \<or> read_within clk k start1"
    "\<forall>t\<in>set dtop. read_within clk k t \<and> start1 \<noteq> 0 \<and> t - start1 \<ge> 2000"
proof -
  obtain start1 a where s1:
    "(if u \<and> yellowEdgeStartTime view = 0 then Date_now clk else (yellowEdgeStartTime view, clk))
       = (start1, advanced clk a)"
    "a \<le> 1" "start1 = yellowEdgeStartTime view \<or> read_within clk a start1"
  proof (cases "u \<and> yellowEdgeStartTime view = 0")
    case True
    obtain s where "Date_now clk = (s, advanced clk 1)" "read_within clk 1 s"
      by (rule Date_now_cases)
    with True that [of s 1] show ?thesis by simp
  next
    case False
    with that [of "yellowEdgeStartTime view" 0] show ?thesis by (simp add: advanced_0)
  qed
  show ?thesis
  proof (cases "start1 > 0")
    case True
    obtain n where d: "Date_now (advanced clk a) = (n, advanced (advanced clk a) 1)"
      "read_within (advanced clk a) 1 n"
      by (rule Date_now_cases)
    let ?view2 = "view\<lparr> yellowEdgeStartTime := start1, yellowEdgeDuration := real_of_int (n - start1),
                        targetCubeOpacity := 0.0 \<rparr>"
    let ?dtop = "if real_of_int (n - start1) \<ge> 2000 then [n] else []"
    show ?thesis
    proof (rule that [of "a + 1" ?view2 ?dtop start1])
      show "updateCubeAppearance True u strength edges clk view =
        (let r = forEach_edge strength (map fst edges) (advanced clk (a + 1), ?view2)
         in (snd (fst r), ?dtop @ fst (snd r), snd (snd r)))"
        using hot True s1(1) d(1)
        by (simp add: updateCubeAppearance_def Let_def case_prod_unfold advanced_advanced)
      show "yellowEdgeStartTime ?view2 = start1" by simp
      show "a + 1 \<le> 2" using s1(2) by simp
      show "start1 = yellowEdgeStartTime view \<or> read_within clk (a + 1) start1"
        using s1(3) read_within_mono [of clk a start1 "a + 1"] by auto
      have "read_within clk (a + 1) n" using d(2) by (rule read_within_advanced)
      then show "\<forall>t\<in>set ?dtop. read_within clk (a + 1) t \<and> start1 \<noteq> 0 \<and> t - start1 \<ge> 2000"
        using True by auto
    qed
  next
    case False
    let ?view2 = "view\<lparr> yellowEdgeStartTime := start1, yellowEdgeDuration := 0,
                        targetCubeOpacity := 0.0 \<rparr>"
    show ?thesis
    proof (rule that [of a ?view2 "[]" start1])
      show "updateCubeAppearance True u strength edges clk view =
        (let r = forEach_edge strength (map fst edges) (advanced clk a, ?view2)
         in (snd (fst r), [] @ fst (snd r), snd (snd r)))"
        using hot False s1(1)
        by (simp add: updateCubeAppearance_def Let_def case_prod_unfold)
      show "yellowEdgeStartTime ?view2 = start1" by simp
      show "a \<le> 2" using s1(2) by simp
      show "start1 = yellowEdgeStartTime view \<or> read_within clk a start1" by (rule s1(3))
      show "\<forall>t\<in>set []. read_within clk a t \<and> start1 \<noteq> 0 \<and> t - start1 \<ge> 2000" by simp
    qed
  qed
qed

lemma updateCubeAppearance_hot:
  assumes hot: "strength > 0.995"
  shows "yellowEdgeStartTime (fst (updateCubeAppearance True u strength edges clk view))
           = yellowEdgeStartTime view
         \<or> read_within clk (2 * length edges + 2)
              (yellowEdgeStartTime (fst (updateCubeAppearance True u strength edges clk view)))"
    and "\<forall>t\<in>set (fst (snd (updateCubeAppearance True u strength edges clk view))).
           read_within clk (2 * length edges + 2) t
           \<and> held_since (yellowEdgeStartTime view) clk (2 * length edges + 2) t"
proof -
  obtain start1 a dtop view2 where top:
    "updateCubeAppearance True u strength edges clk view =
       (let r = forEach_edge strength (map fst edges) (advanced clk a, view2)
        in (snd (fst r), dtop @ fst (snd r), snd (snd r)))"
    "yellowEdgeStartTime view2 = start1"
    "a \<le> 2"
    "start1 = yellowEdgeStartTime view \<or> read_within clk a start1"
    "\<forall>t\<in>set dtop. read_within clk a t \<and> start1 \<noteq> 0 \<and> t - start1 \<ge> 2000"
    by (rule updateCubeAppearance_top [OF hot, of u edges clk view])
  define rf where "rf = forEach_edge strength (map fst edges) (advanced clk a, view2)"
  have rf: "forEach_edge strength (map fst edges) (advanced clk a, view2)
              = ((fst (fst rf), snd (fst rf)), fst (snd rf), snd (snd rf))"
    by (simp add: rf_def)
  from forEach_edge_hot [OF hot rf] top(2) obtain b where b: "b \<le> 2 * length edges"
    "yellowEdgeStartTime (snd (fst rf)) = start1
       \<or> read_within (advanced clk a) b (yellowEdgeStartTime (snd (fst rf)))"
    "\<forall>t\<in>set (fst (snd rf)). read_within (advanced clk a) b t
        \<and> held_since start1 (advanced clk a) b t"
    by auto
  let ?K = "2 * length edges + 2"
  have ab: "a + b \<le> ?K" using top(3) b(1) by simp
  have up: "read_within clk a t \<Longrightarrow> read_within clk ?K t" for t
    using read_within_mono [of clk a t ?K] top(3) by simp
  have late: "read_within (advanced clk a) b t \<Longrightarrow> read_within clk ?K t" for t
    using read_within_mono [OF read_within_advanced ab] by blast
  have widen: "held_since s clk (a + b) t \<Longrightarrow> held_since s clk ?K t" for s t
    unfolding held_since_def using read_within_mono [OF _ ab] by blast
  have res: "fst (updateCubeAppearance True u strength edges clk view) = snd (fst rf)"
    "fst (snd (updateCubeAppearance True u strength edges clk view)) = dtop @ fst (snd rf)"
    by (simp_all add: top(1) Let_def rf_def)
  show "yellowEdgeStartTime (fst (updateCubeAppearance True u strength edges clk view))
           = yellowEdgeStartTime view
         \<or> read_within clk ?K
              (yellowEdgeStartTime (fst (updateCubeAppearance True u strength edges clk view)))"
    unfolding res(1) using b(2) top(4) up late by metis
  show "\<forall>t\<in>set (fst (snd (updateCubeAppearance True u strength edges clk view))).
           read_within clk ?K t \<and> held_since (yellowEdgeStartTime view) clk ?K t"
    unfolding res(2)
  proof
    fix t assume "t \<in> set (dtop @ fst (snd rf))"
    then consider "t \<in> set dtop" | "t \<in> set (fst (snd rf))" by auto
    then show "read_within clk ?K t \<and> held_since (yellowEdgeStartTime view) clk ?K t"
    proof cases
      case 1
      with top(5) have t: "read_within clk a t" "start1 \<noteq> 0" "t - start1 \<ge> 2000" by simp_all
      from top(4) t(2) up
      have "(start1 = yellowEdgeStartTime view \<and> start1 \<noteq> 0) \<or> read_within clk ?K start1"
        by blast
      with t(3) have "held_since (yellowEdgeStartTime view) clk ?K t"
        unfolding held_since_def by blast
      with up [OF t(1)] show ?thesis by simp
    next
      case 2
      with b(3) have t: "read_within (advanced clk a) b t" "held_since start1 (advanced clk a) b t"
        by simp_all
      from top(4) have "(start1 = yellowEdgeStartTime view \<and> yellowEdgeStartTime view \<noteq> 0)
                        \<or> read_within clk a start1 \<or> start1 = 0"
        by blast
      with t(2) have "held_since (yellowEdgeStartTime view) clk (a + b) t"
        by (rule held_since_step)
      with late [OF t(1)] widen show ?thesis by simp
    qed
  qed
qed

lemma after_frames_snoc:
  "after_frames (fs @ [f]) view = fst (frame_update f (after_frames fs view))"
  by (simp add: after_frames_def)

lemma after_frames_held:
  "yellowEdgeStartTime (after_frames fs cube_view_init) = 0
   \<or> (\<exists>j<length fs. (\<forall>i. j \<le> i \<and> i < length fs \<longrightarrow> frame_strength (fs ! i) > 0.995)
         \<and> read_within (frame_clock (fs ! j)) (frame_reads (fs ! j))
             (yellowEdgeStartTime (after_frames fs cube_view_init)))"
proof (induction fs rule: rev_induct)
  case Nil
  then show ?case by (simp add: after_frames_def cube_view_init_def)
next
  case (snoc f fs)
  let ?v = "after_frames fs cube_view_init"
  let ?v' = "after_frames (fs @ [f]) cube_view_init"
  have v': "?v' = fst (updateCubeAppearance True (frame_unlocked f) (frame_strength f)
                        (frame_edges f) (frame_clock f) ?v)"
    by (simp add: after_frames_snoc frame_update_def)
  show ?case
  proof (cases "frame_strength f > 0.995")
    case False
    then have "frame_strength f \<le> 0.995" by simp
    then have "yellowEdgeStartTime ?v' = 0"
      unfolding v' by (rule updateCubeAppearance_cold(1))
    then show ?thesis by simp
  next
    case True
    from updateCubeAppearance_hot(1) [OF True, of "frame_unlocked f" "frame_edges f" "frame_clock f" ?v]
    have alt: "yellowEdgeStartTime ?v' = yellowEdgeStartTime ?v
               \<or> read_within (frame_clock f) (frame_reads f) (yellowEdgeStartTime ?v')"
      unfolding v' frame_reads_def .
    show ?thesis
    proof (cases "read_within (frame_clock f) (frame_reads f) (yellowEdgeStartTime ?v')")
      case True
      have "length fs < length (fs @ [f])" by simp
      moreover have "\<forall>i. length fs \<le> i \<and> i < length (fs @ [f]) \<longrightarrow>
                       frame_strength ((fs @ [f]) ! i) > 0.995"
        using \<open>frame_strength f > 0.995\<close> by (auto simp add: nth_append)
      moreover have "read_within (frame_clock ((fs @ [f]) ! length fs))
                       (frame_reads ((fs @ [f]) ! length fs)) (yellowEdgeStartTime ?v')"
        using True by simp
      ultimately show ?thesis by blast
    next
      case False
      with alt have same: "yellowEdgeStartTime ?v' = yellowEdgeStartTime ?v" by blast
      show ?thesis
      proof (cases "yellowEdgeStartTime ?v = 0")
        case True
        with same show ?thesis by simp
      next
        case False
        with snoc.IH obtain j where j: "j < length fs"
          "\<forall>i. j \<le> i \<and> i < length fs \<longrightarrow> frame_strength (fs ! i) > 0.995"
          "read_within (frame_clock (fs ! j)) (frame_reads (fs ! j)) (yellowEdgeStartTime ?v)"
          by blast
        have "j < length (fs @ [f])" using j(1) by simp
        moreover have "\<forall>i. j \<le> i \<and> i < length (fs @ [f]) \<longrightarrow>
                         frame_strength ((fs @ [f]) ! i) > 0.995"
          using j(2) \<open>frame_strength f > 0.995\<close> by (auto simp add: nth_append less_Suc_eq)
        moreover have "read_within (frame_clock ((fs @ [f]) ! j)) (frame_reads ((fs @ [f]) ! j))
                         (yellowEdgeStartTime ?v')"
          using j(1,3) same by (simp add: nth_append)
        ultimately show ?thesis by blast
      qed
    qed
  qed
qed

lemma dispatch_needs_two_seconds:
  assumes k: "k < length fs" and t: "t \<in> set (dispatched_in fs k)"
  shows "\<exists>j\<le>k. (\<forall>i. j \<le> i \<and> i \<le> k \<longrightarrow> frame_strength (fs ! i) > 0.995)
           \<and> (\<exists>n m. n < frame_reads (fs ! j) \<and> m < frame_reads (fs ! k)
                 \<and> frame_clock (fs ! k) m = t \<and> t - frame_clock (fs ! j) n \<ge> 2000)"
proof -
  let ?f = "fs ! k"
  let ?v = "after_frames (take k fs) cube_view_init"
  have ds: "dispatched_in fs k = fst (snd (updateCubeAppearance True (frame_unlocked ?f)
              (frame_strength ?f) (frame_edges ?f) (frame_clock ?f) ?v))"
    by (simp add: dispatched_in_def frame_update_def)
  have hot: "frame_strength ?f > 0.995"
  proof (rule ccontr)
    assume "\<not> frame_strength ?f > 0.995"
    then have "frame_strength ?f \<le> 0.995" by simp
    then have "dispatched_in fs k = []" unfolding ds by (rule updateCubeAppearance_cold(3))
    with t show False by simp
  qed
  from updateCubeAppearance_hot(2) [OF hot, of "frame_unlocked ?f" "frame_edges ?f" "frame_clock ?f" ?v] t
  have rt: "read_within (frame_clock ?f) (frame_reads ?f) t"
    and since: "held_since (yellowEdgeStartTime ?v) (frame_clock ?f) (frame_reads ?f) t"
    unfolding ds frame_reads_def by blast+
  from rt obtain m where m: "m < frame_reads ?f" "frame_clock ?f m = t"
    unfolding read_within_def by blast
  from since obtain x where x:
    "(x = yellowEdgeStartTime ?v \<and> x \<noteq> 0) \<or> read_within (frame_clock ?f) (frame_reads ?f) x"
    "t - x \<ge> 2000"
    unfolding held_since_def by blast
  show ?thesis
  proof (cases "read_within (frame_clock ?f) (frame_reads ?f) x")
    case True
    then obtain n where "n < frame_reads ?f" "frame_clock ?f n = x"
      unfolding read_within_def by blast
    with x(2) m hot show ?thesis by (intro exI [of _ k]) auto
  next
    case False
    with x(1) have xv: "x = yellowEdgeStartTime ?v" "yellowEdgeStartTime ?v \<noteq> 0" by blast+
    from after_frames_held [of "take k fs"] xv(2) k
    obtain j where j: "j < k"
      "\<forall>i. j \<le> i \<and> i < k \<longrightarrow> frame_strength (take k fs ! i) > 0.995"
      "read_within (frame_clock (take k fs ! j)) (frame_reads (take k fs ! j))
         (yellowEdgeStartTime ?v)"
      by auto
    from j(3) j(1) obtain n where n: "n < frame_reads (fs ! j)" "frame_clock (fs ! j) n = x"
      unfolding read_within_def xv(1) by auto
    have run: "\<forall>i. j \<le> i \<and> i \<le> k \<longrightarrow> frame_strength (fs ! i) > 0.995"
    proof (intro allI impI)
      fix i assume i: "j \<le> i \<and> i \<le> k"
      show "frame_strength (fs ! i) > 0.995"
      proof (cases "i = k")
        case True
        with hot show ?thesis by simp
      next
        case False
        with i have "i < k" by simp
        with j(2) i show ?thesis by auto
      qed
    qed
    have "j \<le> k" using j(1) by simp
    moreover have "\<exists>n m. n < frame_reads (fs ! j) \<and> m < frame_reads (fs ! k)
                     \<and> frame_clock (fs ! k) m = t \<and> t - frame_clock (fs ! j) n \<ge> 2000"
      using m n x(2) by blast
    ultimately show ?thesis using run by blast
  qed
qed

text \<open>
  Claim C5. Take any sequence of frames in which \<open>updateCubeAppearance\<close> runs, from
  the initial variables. If \<open>unlockCubeSecret\<close> is dispatched in frame \<open>k\<close> at clock
  value \<open>t\<close>, then there is a frame \<open>j\<close> up to \<open>k\<close> such that the strength is above
  0.995 in every frame from \<open>j\<close> to \<open>k\<close>, and \<open>t\<close>, a value that \<open>Date.now()\<close> can
  return in frame \<open>k\<close>, is at least 2000 ms after a value that it can return in frame
  \<open>j\<close>. In a frame whose strength is at or below 0.995, the function leaves the start
  time and the duration at zero and dispatches nothing.
\<close>

theorem unlock_needs_two_seconds:
  "(k < length fs \<and> t \<in> set (dispatched_in fs k) \<longrightarrow>
      (\<exists>j\<le>k. (\<forall>i. j \<le> i \<and> i \<le> k \<longrightarrow> frame_strength (fs ! i) > 0.995)
            \<and> (\<exists>n m. n < frame_reads (fs ! j) \<and> m < frame_reads (fs ! k)
                  \<and> frame_clock (fs ! k) m = t \<and> t - frame_clock (fs ! j) n \<ge> 2000)))
   \<and> (frame_strength f \<le> 0.995 \<longrightarrow>
        yellowEdgeStartTime (fst (frame_update f view)) = 0
        \<and> yellowEdgeDuration (fst (frame_update f view)) = 0
        \<and> fst (snd (frame_update f view)) = [])"
  using dispatch_needs_two_seconds [of k fs t]
    updateCubeAppearance_cold [of "frame_strength f" "frame_unlocked f" "frame_edges f" "frame_clock f" view]
  unfolding frame_update_def by blast

lemma example_run:
  "dispatched_in [example_frame 1000 1, example_frame 3000 1] 0 = []"
  "dispatched_in [example_frame 1000 1, example_frame 3000 1] 1 = [3000, 3000]"
  "yellowEdgeStartTime (after_frames [example_frame 1000 1] cube_view_init) = 1000"
  "frame_strength (example_frame 4000 0.9) \<le> 0.995"
  by (simp_all add: dispatched_in_def after_frames_def frame_update_def updateCubeAppearance_def
        edge_body_def Date_now_def Let_def cube_view_init_def example_frame_def)

theorem unlock_needs_two_seconds_witness:
  "1 < length [example_frame 1000 1, example_frame 3000 1]
   \<and> 3000 \<in> set (dispatched_in [example_frame 1000 1, example_frame 3000 1] 1)
   \<and> (\<exists>j\<le>1. (\<forall>i. j \<le> i \<and> i \<le> 1 \<longrightarrow>
                  frame_strength ([example_frame 1000 1, example_frame 3000 1] ! i) > 0.995)
         \<and> (\<exists>n m. n < frame_reads ([example_frame 1000 1, example_frame 3000 1] ! j)
                \<and> m < frame_reads ([example_frame 1000 1, example_frame 3000 1] ! 1)
                \<and> frame_clock ([example_frame 1000 1, example_frame 3000 1] ! 1) m = 3000
                \<and> 3000 - frame_clock ([example_frame 1000 1, example_frame 3000 1] ! j) n \<ge> 2000))
   \<and> frame_strength (example_frame 4000 0.9) \<le> 0.995
   \<and> yellowEdgeStartTime (after_frames [example_frame 1000 1] cube_view_init) = 1000
   \<and> yellowEdgeStartTime (fst (frame_update (example_frame 4000 0.9)
         (after_frames [example_frame 1000 1] cube_view_init))) = 0
   \<and> fst (snd (frame_update (example_frame 4000 0.9)
         (after_frames [example_frame 1000 1] cube_view_init))) = []"
proof -
  let ?fs = "[example_frame 1000 1, example_frame 3000 1]"
  let ?cold = "example_frame 4000 0.9"
  let ?v = "after_frames [example_frame 1000 1] cube_view_init"
  note gate = unlock_needs_two_seconds [of 1 ?fs 3000 ?cold ?v]
  have k: "1 < length ?fs" by simp
  have t: "3000 \<in> set (dispatched_in ?fs 1)" unfolding example_run(2) by simp
  from gate k t example_run(4)
  have "(\<exists>j\<le>1. (\<forall>i. j \<le> i \<and> i \<le> 1 \<longrightarrow> frame_strength (?fs ! i) > 0.995)
         \<and> (\<exists>n m. n < frame_reads (?fs ! j) \<and> m < frame_reads (?fs ! 1)
                \<and> frame_clock (?fs ! 1) m = 3000 \<and> 3000 - frame_clock (?fs ! j) n \<ge> 2000))"
    and "yellowEdgeStartTime (fst (frame_update ?cold ?v)) = 0"
    and "fst (snd (frame_update ?cold ?v)) = []"
    by blast+
  with k t example_run(3,4) show ?thesis by blast
qed

section \<open>Properties of the alignment\<close>

subsection \<open>Rounding to a double at given values\<close>

lemma round_double_sqrt3: "round_double (sqrt 3) = double_sqrt3"
proof -
  have b: "7800463371553962 - 1/2 < sqrt 3 * 2 ^ 52" "sqrt 3 * 2 ^ 52 < 7800463371553962 + 1/2"
  proof -
    have "((7800463371553962 - 1/2) / 2 ^ 52)\<^sup>2 < (3::real)" by (simp add: power2_eq_square)
    then have "(7800463371553962 - 1/2) / 2 ^ 52 < sqrt 3" by (rule real_less_rsqrt)
    then show "7800463371553962 - 1/2 < sqrt 3 * 2 ^ 52" by (simp add: field_simps)
    have "(3::real) < ((7800463371553962 + 1/2) / 2 ^ 52)\<^sup>2" by (simp add: power2_eq_square)
    then have "sqrt 3 < (7800463371553962 + 1/2) / 2 ^ 52" by (intro real_less_lsqrt) simp_all
    then show "sqrt 3 * 2 ^ 52 < 7800463371553962 + 1/2" by (simp add: field_simps)
  qed
  have r: "rne (sqrt 3 * 2 ^ 52) = 7800463371553962"
    using b by (intro rne_eval) simp_all
  have "round_double (sqrt 3) = real_of_int (rne (sqrt 3 * 2 ^ 52)) / 2 ^ 52"
    using b by (intro round_double_eval) simp_all
  then show ?thesis unfolding r double_sqrt3_def by simp
qed

lemma round_double_inv: "round_double (1 / double_sqrt3) = double_inv_sqrt3"
proof -
  have r: "rne (1 / double_sqrt3 * 2 ^ 53) = 5200308914369309"
    by (rule rne_eval) (simp_all add: double_sqrt3_def)
  have "round_double (1 / double_sqrt3) = real_of_int (rne (1 / double_sqrt3 * 2 ^ 53)) / 2 ^ 53"
    by (rule round_double_eval) (simp_all add: double_sqrt3_def)
  then show ?thesis unfolding r double_inv_sqrt3_def by simp
qed

lemma round_double_component:
  "round_double double_inv_sqrt3 = double_inv_sqrt3"
  "round_double (- double_inv_sqrt3) = - double_inv_sqrt3"
  using round_double_exact [of 5200308914369309 53] round_double_exact [of "- 5200308914369309" 53]
  by (simp_all add: double_inv_sqrt3_def)

lemma round_double_square:
  "round_double (double_inv_sqrt3 * double_inv_sqrt3) = double_third"
  "round_double (- (double_inv_sqrt3 * double_inv_sqrt3)) = - double_third"
proof -
  let ?k = double_inv_sqrt3
  have r: "rne (?k * ?k * 2 ^ 54) = 6004799503160663"
    by (rule rne_eval) (simp_all add: double_inv_sqrt3_def)
  have "round_double (?k * ?k) = real_of_int (rne (?k * ?k * 2 ^ 54)) / 2 ^ 54"
    by (rule round_double_eval) (simp_all add: double_inv_sqrt3_def)
  then show "round_double (?k * ?k) = double_third" unfolding r double_third_def by simp
  have r': "rne (- (?k * ?k) * 2 ^ 54) = - 6004799503160663"
    by (rule rne_eval) (simp_all add: double_inv_sqrt3_def)
  have "round_double (- (?k * ?k)) = real_of_int (rne (- (?k * ?k) * 2 ^ 54)) / 2 ^ 54"
    by (rule round_double_eval) (simp_all add: double_inv_sqrt3_def)
  then show "round_double (- (?k * ?k)) = - double_third" unfolding r' double_third_def by simp
qed

lemma round_double_third:
  "round_double double_third = double_third"
  "round_double (- double_third) = - double_third"
  "round_double (2 * double_third) = 2 * double_third"
  "round_double (- (2 * double_third)) = - (2 * double_third)"
  using round_double_exact [of 6004799503160663 54] round_double_exact [of "- 6004799503160663" 54]
    round_double_exact [of 6004799503160663 53] round_double_exact [of "- 6004799503160663" 53]
  by (simp_all add: double_third_def)

lemma round_double_three_thirds:
  "round_double (3 * double_third) = double_above_1"
  "round_double (- (3 * double_third)) = - double_above_1"
proof -
  let ?p = double_third
  have r: "rne (3 * ?p * 2 ^ 52) = 4503599627370497"
    by (rule rne_eval) (simp_all add: double_third_def)
  have "round_double (3 * ?p) = real_of_int (rne (3 * ?p * 2 ^ 52)) / 2 ^ 52"
    by (rule round_double_eval) (simp_all add: double_third_def)
  then show "round_double (3 * ?p) = double_above_1" unfolding r double_above_1_def by simp
  have r': "rne (- (3 * ?p) * 2 ^ 52) = - 4503599627370497"
    by (rule rne_eval) (simp_all add: double_third_def)
  have "round_double (- (3 * ?p)) = real_of_int (rne (- (3 * ?p) * 2 ^ 52)) / 2 ^ 52"
    by (rule round_double_eval) (simp_all add: double_third_def)
  then show "round_double (- (3 * ?p)) = - double_above_1" unfolding r' double_above_1_def by simp
qed

lemma power_upper:
  fixes x :: real
  assumes "0 \<le> x" "real n * x < 1"
  shows "(1 + x) ^ n \<le> 1 / (1 - real n * x)"
proof -
  have "(1 + x) ^ n \<le> exp x ^ n"
    using assms(1) by (intro power_mono) simp_all
  also have "\<dots> = exp (real n * x)" by (simp add: exp_of_nat_mult)
  also have "\<dots> = 1 / exp (- (real n * x))" by (simp add: exp_minus field_simps)
  also have "\<dots> \<le> 1 / (1 - real n * x)"
  proof -
    have "1 + (- (real n * x)) \<le> exp (- (real n * x))" by (rule exp_ge_add_one_self)
    then show ?thesis using assms(2) by (intro divide_left_mono) simp_all
  qed
  finally show ?thesis .
qed

lemma round_double_pow: "round_double (double_above_1 ^ 100) = 1 + 100 / 2 ^ 52"
proof -
  define x :: real where "x = 1 / 2 ^ 52"
  let ?s = double_above_1
  have s: "?s = 1 + x" by (simp add: double_above_1_def x_def)
  have lower: "1 + 100 * x \<le> ?s ^ 100"
    unfolding s using Bernoulli_inequality [of x 100] by (simp add: x_def)
  have upper: "?s ^ 100 \<le> 1 / (1 - 100 * x)"
    unfolding s using power_upper [of x 100] by (simp add: x_def)
  have b1: "4503599627370596 - 1/2 < ?s ^ 100 * 2 ^ 52"
  proof -
    have "(4503599627370596 - 1/2) / 2 ^ 52 < 1 + 100 * x" by (simp add: x_def)
    also note lower
    finally show ?thesis by (simp add: field_simps)
  qed
  have b2: "?s ^ 100 * 2 ^ 52 < 4503599627370596 + 1/2"
  proof -
    note upper
    also have "1 / (1 - 100 * x) < (4503599627370596 + 1/2) / 2 ^ 52" by (simp add: x_def)
    finally show ?thesis by (simp add: field_simps)
  qed
  have r: "rne (?s ^ 100 * 2 ^ 52) = 4503599627370596"
    using b1 b2 by (intro rne_eval) simp_all
  have "round_double (?s ^ 100) = real_of_int (rne (?s ^ 100 * 2 ^ 52)) / 2 ^ 52"
  proof (rule round_double_eval)
    have "0 \<le> ?s ^ 100" by (simp add: double_above_1_def)
    then have a: "\<bar>?s ^ 100\<bar> = ?s ^ 100" by simp
    show "2 ^ 52 \<le> \<bar>?s ^ 100\<bar> * 2 ^ 52" unfolding a using b1 by simp
    show "\<bar>?s ^ 100\<bar> * 2 ^ 52 < 2 ^ 53" unfolding a using b2 by simp
  qed
  then show ?thesis unfolding r by simp
qed

lemmas round_double_facts =
  round_double_0 round_double_1 round_double_2 round_double_3 round_double_sqrt3
  round_double_inv round_double_component round_double_square round_double_third
  round_double_three_thirds

lemma double_values:
  "double_sqrt3 \<noteq> 0" "0 < double_third" "double_third < double_above_1" "0 < double_above_1"
  "double_above_1 = 1 + 1 / 2 ^ 52"
  by (simp_all add: double_sqrt3_def double_third_def double_above_1_def)

lemma vlength_double_corner:
  "a * a = 1 \<Longrightarrow> b * b = 1 \<Longrightarrow> c * c = 1 \<Longrightarrow>
     vlength round_double (Vector3 a b c) = double_sqrt3"
  by (simp add: vlength_def round_double_facts)

lemma normalize_double_corner:
  "a * a = 1 \<Longrightarrow> b * b = 1 \<Longrightarrow> c * c = 1 \<Longrightarrow>
     normalize round_double (Vector3 a b c)
       = Vector3 (round_double (a * double_inv_sqrt3)) (round_double (b * double_inv_sqrt3))
           (round_double (c * double_inv_sqrt3))"
  by (simp add: normalize_def vlength_double_corner double_values multiplyScalar_def
        round_double_facts)

lemma localCorners_double:
  "localCorners round_double =
     [Vector3 double_inv_sqrt3 double_inv_sqrt3 double_inv_sqrt3,
      Vector3 double_inv_sqrt3 double_inv_sqrt3 (- double_inv_sqrt3),
      Vector3 double_inv_sqrt3 (- double_inv_sqrt3) double_inv_sqrt3,
      Vector3 double_inv_sqrt3 (- double_inv_sqrt3) (- double_inv_sqrt3),
      Vector3 (- double_inv_sqrt3) double_inv_sqrt3 double_inv_sqrt3,
      Vector3 (- double_inv_sqrt3) double_inv_sqrt3 (- double_inv_sqrt3),
      Vector3 (- double_inv_sqrt3) (- double_inv_sqrt3) double_inv_sqrt3,
      Vector3 (- double_inv_sqrt3) (- double_inv_sqrt3) (- double_inv_sqrt3)]"
  by (simp add: localCorners_def normalize_double_corner round_double_facts)

lemma setFromEuler_double_identity:
  "setFromEuler round_double (Euler 0 0 0) = Quaternion 0 0 0 1"
  by (simp add: setFromEuler_def round_double_facts)

lemma applyQuaternion_double_identity:
  "round_double a = a \<Longrightarrow> round_double b = b \<Longrightarrow> round_double c = c \<Longrightarrow>
     applyQuaternion round_double (Vector3 a b c) (Quaternion 0 0 0 1) = Vector3 a b c"
  by (simp add: applyQuaternion_def round_double_facts)

lemma worldCorners_double_identity:
  "worldCorners round_double (Euler 0 0 0) = localCorners round_double"
  by (simp add: worldCorners_def applyEuler_def setFromEuler_double_identity localCorners_double
        applyQuaternion_double_identity round_double_facts)

lemma viewDir_double_diagonal:
  "viewDir round_double (Vector3 1 16 1) (Vector3 0 15 0)
     = Vector3 double_inv_sqrt3 double_inv_sqrt3 double_inv_sqrt3"
  by (simp add: viewDir_def sub_def normalize_double_corner round_double_facts)

lemma cornerAlignment_double_diagonal:
  "cornerAlignment round_double (Vector3 double_inv_sqrt3 double_inv_sqrt3 double_inv_sqrt3)
     (Euler 0 0 0) = double_above_1"
  using double_values(2,3,4)
  by (simp add: cornerAlignment_def worldCorners_double_identity localCorners_double dot_def
        round_double_facts)

text \<open>
  Claim C8, as stated, fails in the arithmetic of the code. With the cube at
  \<open>(0,15,0)\<close>, unrotated, and the camera at \<open>(1,16,1)\<close>, the view direction is the
  corner direction \<open>(1,1,1)\<close> normalised, which is also that corner rotated; the maximum
  of \<open>|viewDir . corner|\<close> over the eight corners is then the double just above 1, and
  the strength is \<open>1 + 100 / 2^52\<close>, not 1.
\<close>

theorem self_alignment_in_doubles:
  "normalize round_double (Vector3 1 1 1) \<in> set (localCorners round_double)
   \<and> viewDir round_double (Vector3 1 16 1) (Vector3 0 15 0)
       = applyEuler round_double (normalize round_double (Vector3 1 1 1)) (Euler 0 0 0)
   \<and> cornerAlignment round_double
        (applyEuler round_double (normalize round_double (Vector3 1 1 1)) (Euler 0 0 0))
        (Euler 0 0 0) = 1 + 1 / 2 ^ 52
   \<and> hexagonStrength round_double False False (Some (Vector3 0 15 0, Euler 0 0 0)) (Vector3 1 16 1)
       = 1 + 100 / 2 ^ 52
   \<and> hexagonStrength round_double False False (Some (Vector3 0 15 0, Euler 0 0 0)) (Vector3 1 16 1)
       \<noteq> 1"
proof -
  let ?c = "normalize round_double (Vector3 1 1 1)"
  let ?d = "Vector3 double_inv_sqrt3 double_inv_sqrt3 double_inv_sqrt3"
  have c: "?c = ?d"
    by (simp add: normalize_double_corner round_double_facts)
  have member: "?c \<in> set (localCorners round_double)"
    by (simp add: localCorners_def)
  have rot: "applyEuler round_double ?c (Euler 0 0 0) = ?d"
    unfolding c
    by (simp add: applyEuler_def setFromEuler_double_identity applyQuaternion_double_identity
          round_double_facts)
  have view: "viewDir round_double (Vector3 1 16 1) (Vector3 0 15 0)
                = applyEuler round_double ?c (Euler 0 0 0)"
    unfolding rot by (rule viewDir_double_diagonal)
  have align: "cornerAlignment round_double (applyEuler round_double ?c (Euler 0 0 0)) (Euler 0 0 0)
                 = 1 + 1 / 2 ^ 52"
    unfolding rot cornerAlignment_double_diagonal by (rule double_values(5))
  have strength: "hexagonStrength round_double False False (Some (Vector3 0 15 0, Euler 0 0 0))
                    (Vector3 1 16 1) = 1 + 100 / 2 ^ 52"
    by (simp add: hexagonStrength_def maxAlignment_def viewDir_double_diagonal
          cornerAlignment_double_diagonal round_double_pow)
  have "(1::real) + 100 / 2 ^ 52 \<noteq> 1" by simp
  with member view align strength show ?thesis by simp
qed

subsection \<open>The rotation in the real numbers\<close>

lemma dot_exact: "dot exact a b = vx a * vx b + vy a * vy b + vz a * vz b"
  by (simp add: dot_def exact_def)

lemma setFromEuler_unit:
  "qx (setFromEuler exact e) * qx (setFromEuler exact e)
   + qy (setFromEuler exact e) * qy (setFromEuler exact e)
   + qz (setFromEuler exact e) * qz (setFromEuler exact e)
   + qw (setFromEuler exact e) * qw (setFromEuler exact e) = 1"
proof -
  define c1 where "c1 = cos (ex e / 2)"
  define c2 where "c2 = cos (ey e / 2)"
  define c3 where "c3 = cos (ez e / 2)"
  define s1 where "s1 = sin (ex e / 2)"
  define s2 where "s2 = sin (ey e / 2)"
  define s3 where "s3 = sin (ez e / 2)"
  have u: "s1 * s1 + c1 * c1 = 1" "s2 * s2 + c2 * c2 = 1" "s3 * s3 + c3 * c3 = 1"
    unfolding c1_def c2_def c3_def s1_def s2_def s3_def
    by (simp_all add: power2_eq_square [symmetric])
  have "(s1 * c2 * c3 + c1 * s2 * s3) * (s1 * c2 * c3 + c1 * s2 * s3)
      + (c1 * s2 * c3 - s1 * c2 * s3) * (c1 * s2 * c3 - s1 * c2 * s3)
      + (c1 * c2 * s3 + s1 * s2 * c3) * (c1 * c2 * s3 + s1 * s2 * c3)
      + (c1 * c2 * c3 - s1 * s2 * s3) * (c1 * c2 * c3 - s1 * s2 * s3)
      = (s1 * s1 + c1 * c1) * (s2 * s2 + c2 * c2) * (s3 * s3 + c3 * c3)"
    by (simp add: algebra_simps)
  then show ?thesis
    unfolding u
    by (simp add: setFromEuler_def exact_def Let_def c1_def c2_def c3_def s1_def s2_def s3_def)
qed

lemma applyQuaternion_norm:
  assumes "qx q * qx q + qy q * qy q + qz q * qz q + qw q * qw q = 1"
  shows "dot exact (applyQuaternion exact v q) (applyQuaternion exact v q) = dot exact v v"
proof -
  obtain a b c d where q: "q = Quaternion a b c d" by (cases q)
  obtain x y z where v: "v = Vector3 x y z" by (cases v)
  from assms q have n: "a * a + b * b + c * c + d * d = 1" by simp
  have "dot exact (applyQuaternion exact v q) (applyQuaternion exact v q)
        = (x * x + y * y + z * z)
          + 4 * ((b * z - c * y) * (b * z - c * y) + (c * x - a * z) * (c * x - a * z)
                 + (a * y - b * x) * (a * y - b * x))
              * ((a * a + b * b + c * c + d * d) - 1)"
    unfolding q v dot_exact applyQuaternion_def exact_def Let_def
    by (simp add: algebra_simps)
  then show ?thesis unfolding n by (simp add: q v dot_exact)
qed

lemma applyEuler_norm: "dot exact (applyEuler exact v e) (applyEuler exact v e) = dot exact v v"
  unfolding applyEuler_def by (rule applyQuaternion_norm) (rule setFromEuler_unit)

lemma vlength_dot: "vlength exact a = sqrt (dot exact a a)"
  by (simp add: vlength_def dot_def exact_def)

lemma dot_nonneg: "0 \<le> dot exact a a"
  by (simp add: dot_exact)

lemma normalize_unit:
  assumes "dot exact a a \<noteq> 0"
  shows "dot exact (normalize exact a) (normalize exact a) = 1"
proof -
  have pos: "0 < dot exact a a" using assms dot_nonneg [of a] by simp
  then have l: "vlength exact a \<noteq> 0" "vlength exact a * vlength exact a = dot exact a a"
    by (simp_all add: vlength_dot)
  have "dot exact (normalize exact a) (normalize exact a)
          = dot exact a a * ((1 / vlength exact a) * (1 / vlength exact a))"
    using l(1) by (simp add: normalize_def multiplyScalar_def dot_exact exact_def algebra_simps)
  also have "\<dots> = dot exact a a / (vlength exact a * vlength exact a)"
    by simp
  also have "\<dots> = 1" unfolding l(2) using assms by simp
  finally show ?thesis .
qed

lemma localCorners_unit: "c \<in> set (localCorners exact) \<Longrightarrow> dot exact c c = 1"
proof -
  assume "c \<in> set (localCorners exact)"
  then obtain a where a: "c = normalize exact a" "dot exact a a = 3"
    by (auto simp add: localCorners_def dot_exact)
  from a(2) have "dot exact a a \<noteq> 0" by simp
  then show ?thesis unfolding a(1) by (rule normalize_unit)
qed

lemma cauchy_schwarz_unit:
  assumes "dot exact u u = 1" "dot exact v v = 1"
  shows "\<bar>dot exact u v\<bar> \<le> 1"
proof -
  obtain a b c where u: "u = Vector3 a b c" by (cases u)
  obtain x y z where v: "v = Vector3 x y z" by (cases v)
  have "dot exact u u * dot exact v v - dot exact u v * dot exact u v
        = (b * z - c * y) * (b * z - c * y) + (c * x - a * z) * (c * x - a * z)
          + (a * y - b * x) * (a * y - b * x)"
    unfolding u v dot_exact by (simp add: algebra_simps)
  also have "\<dots> \<ge> 0" by simp
  finally have "dot exact u v * dot exact u v \<le> 1" using assms by simp
  then have "(dot exact u v)\<^sup>2 \<le> 1" by (simp add: power2_eq_square)
  then show ?thesis by (simp add: abs_square_le_1)
qed

lemma foldl_max_lower:
  fixes f :: "'a \<Rightarrow> real"
  shows "m \<le> foldl (\<lambda>acc x. max acc (f x)) m xs"
proof (induction xs arbitrary: m)
  case Nil
  show ?case by simp
next
  case (Cons y ys)
  have "m \<le> max m (f y)" by simp
  also have "\<dots> \<le> foldl (\<lambda>acc x. max acc (f x)) (max m (f y)) ys" by (rule Cons.IH)
  finally show ?case by simp
qed

lemma foldl_max_member:
  fixes f :: "'a \<Rightarrow> real"
  shows "x \<in> set xs \<Longrightarrow> f x \<le> foldl (\<lambda>acc x. max acc (f x)) m xs"
proof (induction xs arbitrary: m)
  case Nil
  then show ?case by simp
next
  case (Cons y ys)
  show ?case
  proof (cases "x = y")
    case True
    have "f x \<le> max m (f y)" using True by simp
    also have "\<dots> \<le> foldl (\<lambda>acc x. max acc (f x)) (max m (f y)) ys" by (rule foldl_max_lower)
    finally show ?thesis by simp
  next
    case False
    with Cons.prems have "x \<in> set ys" by simp
    from Cons.IH [OF this] show ?thesis by simp
  qed
qed

lemma foldl_max_upper:
  fixes f :: "'a \<Rightarrow> real"
  shows "m \<le> b \<Longrightarrow> (\<forall>x\<in>set xs. f x \<le> b) \<Longrightarrow> foldl (\<lambda>acc x. max acc (f x)) m xs \<le> b"
proof (induction xs arbitrary: m)
  case Nil
  then show ?case by simp
next
  case (Cons y ys)
  have "max m (f y) \<le> b" using Cons.prems by simp
  moreover have "\<forall>x\<in>set ys. f x \<le> b" using Cons.prems by simp
  ultimately have "foldl (\<lambda>acc x. max acc (f x)) (max m (f y)) ys \<le> b" by (rule Cons.IH)
  then show ?case by simp
qed

subsection \<open>The rounding errors of the rotation\<close>

lemma approx_bound: "approx e A x x0 \<Longrightarrow> \<bar>x0\<bar> \<le> B \<Longrightarrow> approx e B x x0"
  by (simp add: approx_def)

lemma approx_abs: "approx e A x x0 \<Longrightarrow> \<bar>x\<bar> \<le> A + e"
  unfolding approx_def by linarith

lemma approx_minus: "approx e A x x0 \<Longrightarrow> approx e A (- x) (- x0)"
  unfolding approx_def by linarith

lemma approx_round:
  assumes d: "\<bar>y - x0\<bar> \<le> d" and y: "\<bar>y\<bar> \<le> Y" and x0: "\<bar>x0\<bar> \<le> S"
    and e: "d + Y * (1 / 2 ^ 53) \<le> e"
  shows "approx e S (round_double y) x0"
proof -
  define u :: real where "u = 1 / 2 ^ 53"
  have u: "0 \<le> u" by (simp add: u_def)
  have "\<bar>round_double y - y\<bar> \<le> \<bar>y\<bar> * u" using round_double_rel [of y] by (simp add: u_def)
  also have "\<dots> \<le> Y * u" using y u by (rule mult_right_mono)
  finally have "\<bar>round_double y - y\<bar> \<le> Y * u" .
  then have "\<bar>round_double y - x0\<bar> \<le> d + Y * u" using d by linarith
  with e x0 show ?thesis unfolding approx_def u_def by linarith
qed

lemma approx_mul:
  assumes a: "approx ea A a a0" and b: "approx eb B b b0"
    and c: "A * B \<le> C"
    and e: "(A + ea) * (B + eb) * (1 + 1 / 2 ^ 53) - A * B \<le> e"
  shows "approx e C (round_double (a * b)) (a0 * b0)"
proof (rule approx_round)
  define u :: real where "u = 1 / 2 ^ 53"
  have a1: "\<bar>a\<bar> \<le> A + ea" using a by (rule approx_abs)
  have b1: "\<bar>b\<bar> \<le> B + eb" using b by (rule approx_abs)
  have a0: "\<bar>a0\<bar> \<le> A" "\<bar>a - a0\<bar> \<le> ea" using a by (simp_all add: approx_def)
  have b0: "\<bar>b0\<bar> \<le> B" "\<bar>b - b0\<bar> \<le> eb" using b by (simp_all add: approx_def)
  have nn: "0 \<le> A" "0 \<le> B" "0 \<le> ea" "0 \<le> eb"
    using a0 b0 by linarith+
  have "\<bar>a0 * b0\<bar> \<le> A * B"
    unfolding abs_mult using a0(1) b0(1) by (intro mult_mono) simp_all
  with c show "\<bar>a0 * b0\<bar> \<le> C" by simp
  show y: "\<bar>a * b\<bar> \<le> (A + ea) * (B + eb)"
    unfolding abs_mult using a1 b1 nn by (intro mult_mono) simp_all
  have "a * b - a0 * b0 = a * (b - b0) + (a - a0) * b0" by (simp add: algebra_simps)
  then have "\<bar>a * b - a0 * b0\<bar> \<le> \<bar>a\<bar> * \<bar>b - b0\<bar> + \<bar>a - a0\<bar> * \<bar>b0\<bar>"
    by (simp add: abs_mult [symmetric]) 
  also have "\<dots> \<le> (A + ea) * eb + ea * B"
    using a1 a0 b0 nn by (intro add_mono mult_mono) simp_all
  finally show "\<bar>a * b - a0 * b0\<bar> \<le> (A + ea) * eb + ea * B" .
  have "(A + ea) * eb + ea * B + (A + ea) * (B + eb) * u = (A + ea) * (B + eb) * (1 + u) - A * B"
    by (simp add: algebra_simps)
  then show "(A + ea) * eb + ea * B + (A + ea) * (B + eb) * (1 / 2 ^ 53) \<le> e"
    using e unfolding u_def by simp
qed

lemma approx_add:
  assumes a: "approx ea A a a0" and b: "approx eb B b b0" and s: "\<bar>a0 + b0\<bar> \<le> S"
    and e: "ea + eb + (S + ea + eb) * (1 / 2 ^ 53) \<le> e"
  shows "approx e S (round_double (a + b)) (a0 + b0)"
proof (rule approx_round)
  have a0: "\<bar>a - a0\<bar> \<le> ea" using a by (simp add: approx_def)
  have b0: "\<bar>b - b0\<bar> \<le> eb" using b by (simp add: approx_def)
  show d: "\<bar>a + b - (a0 + b0)\<bar> \<le> ea + eb"
    using a0 b0 by linarith
  show "\<bar>a0 + b0\<bar> \<le> S" by (rule s)
  show "\<bar>a + b\<bar> \<le> S + ea + eb" using d s by linarith
  show "ea + eb + (S + ea + eb) * (1 / 2 ^ 53) \<le> e" by (rule e)
qed

lemma approx_sub:
  assumes a: "approx ea A a a0" and b: "approx eb B b b0" and s: "\<bar>a0 - b0\<bar> \<le> S"
    and e: "ea + eb + (S + ea + eb) * (1 / 2 ^ 53) \<le> e"
  shows "approx e S (round_double (a - b)) (a0 - b0)"
  using approx_add [OF a approx_minus [OF b], of S e] s e by simp

lemma approx_add_sum:
  assumes a: "approx ea A a a0" and b: "approx eb B b b0" and s: "A + B \<le> S"
    and e: "ea + eb + (S + ea + eb) * (1 / 2 ^ 53) \<le> e"
  shows "approx e S (round_double (a + b)) (a0 + b0)"
proof -
  have "\<bar>a0 + b0\<bar> \<le> S" using a b s unfolding approx_def by linarith
  with a b show ?thesis using e by (rule approx_add)
qed

lemma approx_sub_sum:
  assumes a: "approx ea A a a0" and b: "approx eb B b b0" and s: "A + B \<le> S"
    and e: "ea + eb + (S + ea + eb) * (1 / 2 ^ 53) \<le> e"
  shows "approx e S (round_double (a - b)) (a0 - b0)"
proof -
  have "\<bar>a0 - b0\<bar> \<le> S" using a b s unfolding approx_def by linarith
  with a b show ?thesis using e by (rule approx_sub)
qed

lemma approx_leaf: "\<bar>x\<bar> \<le> 1 \<Longrightarrow> approx (1 / 2 ^ 53) 1 (round_double x) x"
  by (rule approx_round [where d = 0 and Y = 1]) simp_all

lemma approx_two: "approx 0 2 2 2"
  by (simp add: approx_def)

lemma triple_product:
  assumes "approx (1 / 2 ^ 53) 1 a a0" "approx (1 / 2 ^ 53) 1 b b0" "approx (1 / 2 ^ 53) 1 c c0"
  shows "approx (7 / 2 ^ 53) 1 (round_double (round_double (a * b) * c)) (a0 * b0 * c0)"
proof -
  have "approx (4 / 2 ^ 53) 1 (round_double (a * b)) (a0 * b0)"
    by (rule approx_mul [OF assms(1,2)]) simp_all
  then show ?thesis
    by (rule approx_mul [OF _ assms(3)]) simp_all
qed

lemma quaternion_component:
  assumes "approx (1 / 2 ^ 53) 1 a a0" "approx (1 / 2 ^ 53) 1 b b0" "approx (1 / 2 ^ 53) 1 c c0"
    "approx (1 / 2 ^ 53) 1 d d0" "approx (1 / 2 ^ 53) 1 e e0" "approx (1 / 2 ^ 53) 1 f f0"
  shows "\<bar>a0 * b0 * c0 + d0 * e0 * f0\<bar> \<le> 1 \<Longrightarrow>
           approx (16 / 2 ^ 53) 1
             (round_double (round_double (round_double (a * b) * c)
                + round_double (round_double (d * e) * f)))
             (a0 * b0 * c0 + d0 * e0 * f0)"
    and "\<bar>a0 * b0 * c0 - d0 * e0 * f0\<bar> \<le> 1 \<Longrightarrow>
           approx (16 / 2 ^ 53) 1
             (round_double (round_double (round_double (a * b) * c)
                - round_double (round_double (d * e) * f)))
             (a0 * b0 * c0 - d0 * e0 * f0)"
proof -
  note p = triple_product [OF assms(1,2,3)] triple_product [OF assms(4,5,6)]
  show "\<bar>a0 * b0 * c0 + d0 * e0 * f0\<bar> \<le> 1 \<Longrightarrow>
           approx (16 / 2 ^ 53) 1
             (round_double (round_double (round_double (a * b) * c)
                + round_double (round_double (d * e) * f)))
             (a0 * b0 * c0 + d0 * e0 * f0)"
    by (rule approx_add [OF p]) simp_all
  show "\<bar>a0 * b0 * c0 - d0 * e0 * f0\<bar> \<le> 1 \<Longrightarrow>
           approx (16 / 2 ^ 53) 1
             (round_double (round_double (round_double (a * b) * c)
                - round_double (round_double (d * e) * f)))
             (a0 * b0 * c0 - d0 * e0 * f0)"
    by (rule approx_sub [OF p]) simp_all
qed

lemma cross_component:
  assumes q1: "approx (16 / 2 ^ 53) 1 q1 q10" and q2: "approx (16 / 2 ^ 53) 1 q2 q20"
    and v1: "approx (1 / 2 ^ 53) (29/50) v1 v10" and v2: "approx (1 / 2 ^ 53) (29/50) v2 v20"
  shows "approx (51 / 2 ^ 53) (58/25)
           (round_double (2 * round_double (round_double (q1 * v1) - round_double (q2 * v2))))
           (2 * (q10 * v10 - q20 * v20))"
proof -
  have a: "approx (11 / 2 ^ 53) (29/50) (round_double (q1 * v1)) (q10 * v10)"
    by (rule approx_mul [OF q1 v1]) simp_all
  have b: "approx (11 / 2 ^ 53) (29/50) (round_double (q2 * v2)) (q20 * v20)"
    by (rule approx_mul [OF q2 v2]) simp_all
  have d: "approx (24 / 2 ^ 53) (29/25)
             (round_double (round_double (q1 * v1) - round_double (q2 * v2)))
             (q10 * v10 - q20 * v20)"
    by (rule approx_sub_sum [OF a b]) simp_all
  show ?thesis
    by (rule approx_mul [OF approx_two d]) simp_all
qed

lemma rotated_component:
  assumes v: "approx (1 / 2 ^ 53) (29/50) v v0"
    and qw: "approx (16 / 2 ^ 53) 1 w w0" and qa: "approx (16 / 2 ^ 53) 1 a a0"
    and qb: "approx (16 / 2 ^ 53) 1 b b0"
    and t1: "approx (51 / 2 ^ 53) (58/25) t1 t10" and t2: "approx (51 / 2 ^ 53) (58/25) t2 t20"
    and t3: "approx (51 / 2 ^ 53) (58/25) t3 t30"
  shows "approx (291 / 2 ^ 53) (377/50)
           (round_double (round_double (round_double (v + round_double (w * t1))
              + round_double (a * t2)) - round_double (b * t3)))
           (v0 + w0 * t10 + a0 * t20 - b0 * t30)"
proof -
  have p1: "approx (91 / 2 ^ 53) (58/25) (round_double (w * t1)) (w0 * t10)"
    by (rule approx_mul [OF qw t1]) simp_all
  have p2: "approx (91 / 2 ^ 53) (58/25) (round_double (a * t2)) (a0 * t20)"
    by (rule approx_mul [OF qa t2]) simp_all
  have p3: "approx (91 / 2 ^ 53) (58/25) (round_double (b * t3)) (b0 * t30)"
    by (rule approx_mul [OF qb t3]) simp_all
  have s1: "approx (95 / 2 ^ 53) (29/10) (round_double (v + round_double (w * t1))) (v0 + w0 * t10)"
    by (rule approx_add_sum [OF v p1]) simp_all
  have s2: "approx (192 / 2 ^ 53) (261/50)
              (round_double (round_double (v + round_double (w * t1)) + round_double (a * t2)))
              (v0 + w0 * t10 + a0 * t20)"
    by (rule approx_add_sum [OF s1 p2]) simp_all
  show ?thesis
    by (rule approx_sub_sum [OF s2 p3]) simp_all
qed


lemma unit_components:
  fixes x :: real
  assumes "x * x + y * y + z * z + w * w = 1"
  shows "\<bar>x\<bar> \<le> 1" "\<bar>y\<bar> \<le> 1" "\<bar>z\<bar> \<le> 1" "\<bar>w\<bar> \<le> 1"
proof -
  have sq: "0 \<le> x * x" "0 \<le> y * y" "0 \<le> z * z" "0 \<le> w * w" by simp_all
  have "x\<^sup>2 \<le> 1" "y\<^sup>2 \<le> 1" "z\<^sup>2 \<le> 1" "w\<^sup>2 \<le> 1"
    unfolding power2_eq_square using assms sq by linarith+
  then show "\<bar>x\<bar> \<le> 1" "\<bar>y\<bar> \<le> 1" "\<bar>z\<bar> \<le> 1" "\<bar>w\<bar> \<le> 1"
    by (simp_all add: abs_square_le_1)
qed

lemma unit_vector_components:
  assumes "dot exact a a = 1"
  shows "\<bar>vx a\<bar> \<le> 1" "\<bar>vy a\<bar> \<le> 1" "\<bar>vz a\<bar> \<le> 1"
proof -
  have "vx a * vx a + vy a * vy a + vz a * vz a + 0 * 0 = 1"
    using assms by (simp add: dot_exact)
  then show "\<bar>vx a\<bar> \<le> 1" "\<bar>vy a\<bar> \<le> 1" "\<bar>vz a\<bar> \<le> 1"
    by (rule unit_components)+
qed

lemma setFromEuler_close:
  fixes e :: euler
  defines "q \<equiv> setFromEuler round_double e"
    and "q0 \<equiv> setFromEuler exact (rounded_rotation e)"
  shows "approx (16 / 2 ^ 53) 1 (qx q) (qx q0)" "approx (16 / 2 ^ 53) 1 (qy q) (qy q0)"
    "approx (16 / 2 ^ 53) 1 (qz q) (qz q0)" "approx (16 / 2 ^ 53) 1 (qw q) (qw q0)"
proof -
  define t1 where "t1 = round_double (ex e / 2)"
  define t2 where "t2 = round_double (ey e / 2)"
  define t3 where "t3 = round_double (ez e / 2)"
  have c: "approx (1 / 2 ^ 53) 1 (round_double (cos t1)) (cos t1)"
    "approx (1 / 2 ^ 53) 1 (round_double (cos t2)) (cos t2)"
    "approx (1 / 2 ^ 53) 1 (round_double (cos t3)) (cos t3)"
    by (rule approx_leaf, simp)+
  have s: "approx (1 / 2 ^ 53) 1 (round_double (sin t1)) (sin t1)"
    "approx (1 / 2 ^ 53) 1 (round_double (sin t2)) (sin t2)"
    "approx (1 / 2 ^ 53) 1 (round_double (sin t3)) (sin t3)"
    by (rule approx_leaf, simp)+
  have q0: "q0 = Quaternion (sin t1 * cos t2 * cos t3 + cos t1 * sin t2 * sin t3)
                            (cos t1 * sin t2 * cos t3 - sin t1 * cos t2 * sin t3)
                            (cos t1 * cos t2 * sin t3 + sin t1 * sin t2 * cos t3)
                            (cos t1 * cos t2 * cos t3 - sin t1 * sin t2 * sin t3)"
    by (simp add: q0_def setFromEuler_def exact_def rounded_rotation_def Let_def t1_def t2_def t3_def)
  have "qx q0 * qx q0 + qy q0 * qy q0 + qz q0 * qz q0 + qw q0 * qw q0 = 1"
    unfolding q0_def by (rule setFromEuler_unit)
  then have unit: "\<bar>qx q0\<bar> \<le> 1" "\<bar>qy q0\<bar> \<le> 1" "\<bar>qz q0\<bar> \<le> 1" "\<bar>qw q0\<bar> \<le> 1"
    by (rule unit_components)+
  have q: "q = Quaternion
      (round_double (round_double (round_double (round_double (sin t1) * round_double (cos t2))
           * round_double (cos t3))
         + round_double (round_double (round_double (cos t1) * round_double (sin t2))
           * round_double (sin t3))))
      (round_double (round_double (round_double (round_double (cos t1) * round_double (sin t2))
           * round_double (cos t3))
         - round_double (round_double (round_double (sin t1) * round_double (cos t2))
           * round_double (sin t3))))
      (round_double (round_double (round_double (round_double (cos t1) * round_double (cos t2))
           * round_double (sin t3))
         + round_double (round_double (round_double (sin t1) * round_double (sin t2))
           * round_double (cos t3))))
      (round_double (round_double (round_double (round_double (cos t1) * round_double (cos t2))
           * round_double (cos t3))
         - round_double (round_double (round_double (sin t1) * round_double (sin t2))
           * round_double (sin t3))))"
    by (simp add: q_def setFromEuler_def Let_def t1_def t2_def t3_def)
  show "approx (16 / 2 ^ 53) 1 (qx q) (qx q0)"
    using unit(1) unfolding q q0 quaternion.sel
    by (rule quaternion_component(1) [OF s(1) c(2) c(3) c(1) s(2) s(3)])
  show "approx (16 / 2 ^ 53) 1 (qy q) (qy q0)"
    using unit(2) unfolding q q0 quaternion.sel
    by (rule quaternion_component(2) [OF c(1) s(2) c(3) s(1) c(2) s(3)])
  show "approx (16 / 2 ^ 53) 1 (qz q) (qz q0)"
    using unit(3) unfolding q q0 quaternion.sel
    by (rule quaternion_component(1) [OF c(1) c(2) s(3) s(1) s(2) c(3)])
  show "approx (16 / 2 ^ 53) 1 (qw q) (qw q0)"
    using unit(4) unfolding q q0 quaternion.sel
    by (rule quaternion_component(2) [OF c(1) c(2) c(3) s(1) s(2) s(3)])
qed

lemma applyQuaternion_close:
  assumes q: "approx (16 / 2 ^ 53) 1 (qx q) (qx q0)" "approx (16 / 2 ^ 53) 1 (qy q) (qy q0)"
    "approx (16 / 2 ^ 53) 1 (qz q) (qz q0)" "approx (16 / 2 ^ 53) 1 (qw q) (qw q0)"
    and v: "vclose (1 / 2 ^ 53) (29/50) v v0"
  shows "vclose (291 / 2 ^ 53) (377/50) (applyQuaternion round_double v q)
           (applyQuaternion exact v0 q0)"
proof -
  note c = v [unfolded vclose_def, THEN conjunct1] v [unfolded vclose_def, THEN conjunct2, THEN conjunct1]
    v [unfolded vclose_def, THEN conjunct2, THEN conjunct2]
  note tx = cross_component [OF q(2) q(3) c(3) c(2)]
  note ty = cross_component [OF q(3) q(1) c(1) c(3)]
  note tz = cross_component [OF q(1) q(2) c(2) c(1)]
  show ?thesis
    unfolding vclose_def applyQuaternion_def exact_def Let_def vector3.sel
    by (intro conjI rotated_component [OF c(1) q(4) q(2) q(3) tx tz ty]
          rotated_component [OF c(2) q(4) q(3) q(1) ty tx tz]
          rotated_component [OF c(3) q(4) q(1) q(2) tz ty tx])
qed

lemma dot_close:
  assumes a: "vclose (291 / 2 ^ 53) 1 a a0" and b: "vclose (291 / 2 ^ 53) 1 b b0"
    and d: "\<bar>dot exact a0 b0\<bar> \<le> 1"
  shows "approx (1757 / 2 ^ 53) 1 (dot round_double a b) (dot exact a0 b0)"
proof -
  note ca = a [unfolded vclose_def, THEN conjunct1] a [unfolded vclose_def, THEN conjunct2, THEN conjunct1]
    a [unfolded vclose_def, THEN conjunct2, THEN conjunct2]
  note cb = b [unfolded vclose_def, THEN conjunct1] b [unfolded vclose_def, THEN conjunct2, THEN conjunct1]
    b [unfolded vclose_def, THEN conjunct2, THEN conjunct2]
  have p1: "approx (584 / 2 ^ 53) 1 (round_double (vx a * vx b)) (vx a0 * vx b0)"
    by (rule approx_mul [OF ca(1) cb(1)]) simp_all
  have p2: "approx (584 / 2 ^ 53) 1 (round_double (vy a * vy b)) (vy a0 * vy b0)"
    by (rule approx_mul [OF ca(2) cb(2)]) simp_all
  have p3: "approx (584 / 2 ^ 53) 1 (round_double (vz a * vz b)) (vz a0 * vz b0)"
    by (rule approx_mul [OF ca(3) cb(3)]) simp_all
  have s: "approx (1171 / 2 ^ 53) 2
             (round_double (round_double (vx a * vx b) + round_double (vy a * vy b)))
             (vx a0 * vx b0 + vy a0 * vy b0)"
    by (rule approx_add_sum [OF p1 p2]) simp_all
  show ?thesis
    unfolding dot_def [of round_double] dot_exact
    by (rule approx_add [OF s p3]) (use d in \<open>simp_all add: dot_exact\<close>)
qed


lemma inv_sqrt3_close: "approx (1 / 2 ^ 53) (29/50) double_inv_sqrt3 (1 / sqrt 3)"
proof -
  define s :: real where "s = 5200308914369309 / 2 ^ 53"
  define u :: real where "u = 1 / 2 ^ 53"
  have pos: "0 < s - u" "0 < s + u" by (simp_all add: s_def u_def)
  have "(1 / (s + u))\<^sup>2 \<le> 3" by (simp add: s_def u_def power2_eq_square)
  then have lo: "1 / (s + u) \<le> sqrt 3" by (rule real_le_rsqrt)
  have "3 \<le> (1 / (s - u))\<^sup>2" by (simp add: s_def u_def power2_eq_square)
  then have hi: "sqrt 3 \<le> 1 / (s - u)" using pos by (intro real_le_lsqrt) simp_all
  have r: "0 < sqrt 3" by simp
  have "1 / sqrt 3 \<le> s + u"
    using lo pos r by (simp add: field_simps)
  moreover have "s - u \<le> 1 / sqrt 3"
    using hi pos r by (simp add: field_simps)
  moreover have "s + u \<le> 29/50" by (simp add: s_def u_def)
  ultimately have "\<bar>s - 1 / sqrt 3\<bar> \<le> u" "\<bar>1 / sqrt 3\<bar> \<le> 29/50"
    using r by (simp_all add: abs_le_iff)
  then show ?thesis
    unfolding approx_def double_inv_sqrt3_def s_def u_def by simp
qed

lemma localCorners_exact:
  "localCorners exact =
     [Vector3 (1 / sqrt 3) (1 / sqrt 3) (1 / sqrt 3),
      Vector3 (1 / sqrt 3) (1 / sqrt 3) (- (1 / sqrt 3)),
      Vector3 (1 / sqrt 3) (- (1 / sqrt 3)) (1 / sqrt 3),
      Vector3 (1 / sqrt 3) (- (1 / sqrt 3)) (- (1 / sqrt 3)),
      Vector3 (- (1 / sqrt 3)) (1 / sqrt 3) (1 / sqrt 3),
      Vector3 (- (1 / sqrt 3)) (1 / sqrt 3) (- (1 / sqrt 3)),
      Vector3 (- (1 / sqrt 3)) (- (1 / sqrt 3)) (1 / sqrt 3),
      Vector3 (- (1 / sqrt 3)) (- (1 / sqrt 3)) (- (1 / sqrt 3))]"
  by (simp add: localCorners_def normalize_def vlength_def multiplyScalar_def exact_def)

lemma localCorners_close:
  "list_all2 (vclose (1 / 2 ^ 53) (29/50)) (localCorners round_double) (localCorners exact)"
  unfolding localCorners_double localCorners_exact vclose_def
  using inv_sqrt3_close approx_minus [OF inv_sqrt3_close] by simp

lemma corner_close:
  assumes "c \<in> set (localCorners round_double)"
  obtains c0 where "c0 \<in> set (localCorners exact)" "vclose (1 / 2 ^ 53) (29/50) c c0"
proof -
  from assms obtain i where i: "i < length (localCorners round_double)"
    "c = localCorners round_double ! i"
    by (auto simp add: in_set_conv_nth)
  note l = localCorners_close [unfolded list_all2_conv_all_nth]
  from l i have "localCorners exact ! i \<in> set (localCorners exact)"
    "vclose (1 / 2 ^ 53) (29/50) c (localCorners exact ! i)"
    by simp_all
  then show ?thesis by (rule that)
qed

lemma applyEuler_close:
  assumes c0: "c0 \<in> set (localCorners exact)" and c: "vclose (1 / 2 ^ 53) (29/50) c c0"
  shows "vclose (291 / 2 ^ 53) 1 (applyEuler round_double c rotation)
           (applyEuler exact c0 (rounded_rotation rotation))"
    and "dot exact (applyEuler exact c0 (rounded_rotation rotation))
           (applyEuler exact c0 (rounded_rotation rotation)) = 1"
proof -
  let ?w = "applyEuler round_double c rotation"
  let ?x = "applyEuler exact c0 (rounded_rotation rotation)"
  show unit: "dot exact ?x ?x = 1"
    using localCorners_unit [OF c0] by (simp add: applyEuler_norm)
  have "vclose (291 / 2 ^ 53) (377/50) ?w ?x"
    unfolding applyEuler_def by (rule applyQuaternion_close [OF setFromEuler_close c])
  then show "vclose (291 / 2 ^ 53) 1 ?w ?x"
    unfolding vclose_def using unit_vector_components [OF unit]
    by (blast intro: approx_bound)
qed

lemma cornerAlignment_close:
  assumes c: "c \<in> set (localCorners round_double)"
  shows "\<bar>cornerAlignment round_double (applyEuler round_double c rotation) rotation - 1\<bar>
           \<le> 1757 / 2 ^ 53"
proof -
  let ?view = "applyEuler round_double c rotation"
  let ?f = "\<lambda>corner. \<bar>dot round_double ?view corner\<bar>"
  let ?r = "rounded_rotation rotation"
  from c obtain c0 where c0: "c0 \<in> set (localCorners exact)" "vclose (1 / 2 ^ 53) (29/50) c c0"
    by (rule corner_close)
  note view = applyEuler_close [OF c0]
  have in_world: "?view \<in> set (worldCorners round_double rotation)"
    using c by (simp add: worldCorners_def)
  have bound: "\<forall>w\<in>set (worldCorners round_double rotation). ?f w \<le> 1 + 1757 / 2 ^ 53"
  proof
    fix w assume "w \<in> set (worldCorners round_double rotation)"
    then obtain c' where c': "c' \<in> set (localCorners round_double)"
      "w = applyEuler round_double c' rotation"
      by (auto simp add: worldCorners_def)
    from c'(1) obtain c0' where c0': "c0' \<in> set (localCorners exact)"
      "vclose (1 / 2 ^ 53) (29/50) c' c0'"
      by (rule corner_close)
    note w = applyEuler_close [OF c0', of rotation]
    have d: "\<bar>dot exact (applyEuler exact c0 ?r) (applyEuler exact c0' ?r)\<bar> \<le> 1"
      using view(2) w(2) by (rule cauchy_schwarz_unit)
    have "approx (1757 / 2 ^ 53) 1 (dot round_double ?view w)
            (dot exact (applyEuler exact c0 ?r) (applyEuler exact c0' ?r))"
      unfolding c'(2) using view(1) w(1) d by (rule dot_close)
    then show "?f w \<le> 1 + 1757 / 2 ^ 53"
      by (rule approx_abs)
  qed
  have upper: "foldl (\<lambda>acc x. max acc (?f x)) 0 (worldCorners round_double rotation)
                 \<le> 1 + 1757 / 2 ^ 53"
    using bound by (intro foldl_max_upper) simp_all
  have "\<bar>dot exact (applyEuler exact c0 ?r) (applyEuler exact c0 ?r)\<bar> \<le> 1"
    using view(2) by simp
  with view(1) view(1)
  have "approx (1757 / 2 ^ 53) 1 (dot round_double ?view ?view)
          (dot exact (applyEuler exact c0 ?r) (applyEuler exact c0 ?r))"
    by (rule dot_close)
  then have "\<bar>dot round_double ?view ?view - 1\<bar> \<le> 1757 / 2 ^ 53"
    unfolding view(2) approx_def by simp
  then have "1 - 1757 / 2 ^ 53 \<le> ?f ?view" by linarith
  also have "?f ?view \<le> foldl (\<lambda>acc x. max acc (?f x)) 0 (worldCorners round_double rotation)"
    using in_world by (rule foldl_max_member)
  finally have lower: "1 - 1757 / 2 ^ 53
      \<le> foldl (\<lambda>acc x. max acc (?f x)) 0 (worldCorners round_double rotation)" .
  show ?thesis
    unfolding cornerAlignment_def using lower upper by linarith
qed

lemma power_close:
  fixes a :: real
  assumes "\<bar>a - 1\<bar> \<le> 1757 / 2 ^ 53"
  shows "\<bar>round_double (a ^ 100) - 1\<bar> \<le> 1 / 2 ^ 35"
proof -
  define x :: real where "x = 1757 / 2 ^ 53"
  have a: "1 - x \<le> a" "a \<le> 1 + x" using assms unfolding x_def by linarith+
  have x: "0 \<le> x" "x \<le> 1" "real 100 * x < 1" by (simp_all add: x_def)
  have "1 + real 100 * (- x) \<le> (1 + (- x)) ^ 100"
    using x by (intro Bernoulli_inequality) simp
  also have "\<dots> \<le> a ^ 100" using a x by (intro power_mono) simp_all
  finally have lo: "1 - 100 * x \<le> a ^ 100" by simp
  have "a ^ 100 \<le> (1 + x) ^ 100" using a x by (intro power_mono) linarith+
  also have "\<dots> \<le> 1 / (1 - real 100 * x)" using x by (intro power_upper) simp_all
  finally have hi: "a ^ 100 \<le> 1 / (1 - 100 * x)" by simp
  have "0 \<le> 1 - 100 * x" by (simp add: x_def)
  from round_double_between [OF this lo hi]
  have "(1 - 100 * x) * (1 - 1 / 2 ^ 53) \<le> round_double (a ^ 100)"
    "round_double (a ^ 100) \<le> 1 / (1 - 100 * x) * (1 + 1 / 2 ^ 53)" by simp_all
  moreover have "1 - 1 / 2 ^ 35 \<le> (1 - 100 * x) * (1 - 1 / 2 ^ 53)"
    "1 / (1 - 100 * x) * (1 + 1 / 2 ^ 53) \<le> 1 + 1 / 2 ^ 35"
    by (simp_all add: x_def)
  ultimately show ?thesis by linarith
qed

text \<open>
  Claim C8, amended: up to rounding. For every rotation of the cube and each of its
  eight corner directions \<open>c\<close>, all as the code computes them in doubles: when the
  view direction is the rotated corner, the maximum of \<open>|viewDir . corner|\<close> over the
  eight rotated corners is within \<open>1757 / 2^53\<close> of 1, about \<open>2 * 10^-13\<close>, and its
  100th power is within \<open>1 / 2^35\<close> of 1, less than \<open>3 * 10^-11\<close>; so is the strength
  that the frame callback computes, in manual mode on a tableau other than Saturn,
  when the camera is placed so that the view direction is the rotated corner.
\<close>

theorem self_alignment_up_to_rounding:
  "c \<in> set (localCorners round_double) \<Longrightarrow>
     \<bar>cornerAlignment round_double (applyEuler round_double c rotation) rotation - 1\<bar>
        \<le> 1757 / 2 ^ 53
     \<and> \<bar>round_double ((cornerAlignment round_double (applyEuler round_double c rotation) rotation) ^ 100)
          - 1\<bar> \<le> 1 / 2 ^ 35
     \<and> (viewDir round_double cameraPosition position = applyEuler round_double c rotation \<longrightarrow>
          \<bar>hexagonStrength round_double False False (Some (position, rotation)) cameraPosition - 1\<bar>
            \<le> 1 / 2 ^ 35)"
proof -
  assume c: "c \<in> set (localCorners round_double)"
  let ?a = "cornerAlignment round_double (applyEuler round_double c rotation) rotation"
  have a: "\<bar>?a - 1\<bar> \<le> 1757 / 2 ^ 53" using c by (rule cornerAlignment_close)
  then have p: "\<bar>round_double (?a ^ 100) - 1\<bar> \<le> 1 / 2 ^ 35" by (rule power_close)
  have "viewDir round_double cameraPosition position = applyEuler round_double c rotation \<Longrightarrow>
          hexagonStrength round_double False False (Some (position, rotation)) cameraPosition
            = round_double (?a ^ 100)"
    by (simp add: hexagonStrength_def maxAlignment_def)
  with a p show ?thesis by simp
qed

theorem self_alignment_up_to_rounding_witness:
  "normalize round_double (Vector3 1 1 1) \<in> set (localCorners round_double)
   \<and> viewDir round_double (Vector3 1 16 1) (Vector3 0 15 0)
       = applyEuler round_double (normalize round_double (Vector3 1 1 1)) (Euler 0 0 0)
   \<and> \<bar>hexagonStrength round_double False False (Some (Vector3 0 15 0, Euler 0 0 0)) (Vector3 1 16 1)
        - 1\<bar> \<le> 1 / 2 ^ 35
   \<and> \<bar>round_double ((cornerAlignment round_double
          (applyEuler round_double (normalize round_double (Vector3 1 1 1)) (Euler 1 2 3))
          (Euler 1 2 3)) ^ 100) - 1\<bar> \<le> 1 / 2 ^ 35"
proof -
  let ?c = "normalize round_double (Vector3 1 1 1)"
  have c: "?c \<in> set (localCorners round_double)"
    by (simp add: localCorners_def)
  have "?c = Vector3 double_inv_sqrt3 double_inv_sqrt3 double_inv_sqrt3"
    by (simp add: normalize_double_corner round_double_facts)
  then have view: "viewDir round_double (Vector3 1 16 1) (Vector3 0 15 0)
                = applyEuler round_double ?c (Euler 0 0 0)"
    by (simp add: viewDir_double_diagonal applyEuler_def setFromEuler_double_identity
          applyQuaternion_double_identity round_double_facts)
  from self_alignment_up_to_rounding [OF c, of "Euler 0 0 0" "Vector3 1 16 1" "Vector3 0 15 0"]
    self_alignment_up_to_rounding [OF c, of "Euler 1 2 3" "Vector3 1 16 1" "Vector3 0 15 0"]
    c view
  show ?thesis by blast
qed

end
